theory Spec2Isabelle
  imports Main "HOL-Library.Sublist"
begin

section \<open>Python text primitives used by server.py\<close>

text \<open>
  The server decodes every request with ISO-8859-1, so each character of a request is
  one byte and \<^typ>\<open>string\<close> (a list of 8-bit characters) is both the byte buffer and the
  decoded text. The functions of this section model the built-in \<open>str\<close> methods the
  server calls, restricted to code points below 256.
\<close>

datatype py_exn = ValueError | IndexError | OSError | SocketTimeout

definition CRLF :: string where
  "CRLF = [CHR 0x0D, CHR 0x0A]"

definition py_isspace :: "char \<Rightarrow> bool" where
  \<comment> \<open>\<open>str.isspace\<close> on one character: TAB..CR, FS..US, space, NEL, NBSP\<close>
  "py_isspace c = (let n = (of_char c :: nat) in
     (9 \<le> n \<and> n \<le> 13) \<or> (28 \<le> n \<and> n \<le> 32) \<or> n = 133 \<or> n = 160)"

definition py_strip :: "string \<Rightarrow> string" where
  \<comment> \<open>\<open>s.strip()\<close>\<close>
  "py_strip s = rev (dropWhile py_isspace (rev (dropWhile py_isspace s)))"

definition is_upper :: "char \<Rightarrow> bool" where
  "is_upper c = (let n = (of_char c :: nat) in
     (65 \<le> n \<and> n \<le> 90) \<or> (192 \<le> n \<and> n \<le> 222 \<and> n \<noteq> 215))"

definition char_lower :: "char \<Rightarrow> char" where
  \<comment> \<open>the lower-case partner is 32 code points up, which is bit 5 set\<close>
  "char_lower c = (if is_upper c
     then (case c of Char b0 b1 b2 b3 b4 b5 b6 b7 \<Rightarrow> Char b0 b1 b2 b3 b4 True b6 b7)
     else c)"

definition py_lower :: "string \<Rightarrow> string" where
  \<comment> \<open>\<open>s.lower()\<close>\<close>
  "py_lower s = map char_lower s"

fun py_in :: "string \<Rightarrow> string \<Rightarrow> bool" where
  \<comment> \<open>\<open>sub in s\<close>\<close>
  "py_in sub [] = (sub = [])"
| "py_in sub (c # cs) = (prefix sub (c # cs) \<or> py_in sub cs)"

fun split1 :: "string \<Rightarrow> string \<Rightarrow> string list" where
  \<comment> \<open>\<open>s.split(sep, 1)\<close> for a non-empty separator: one or two pieces\<close>
  "split1 sep [] = [[]]"
| "split1 sep (c # cs) =
     (if prefix sep (c # cs) then [[], drop (length sep) (c # cs)]
      else (case split1 sep cs of a # r \<Rightarrow> (c # a) # r | [] \<Rightarrow> [[c]]))"

fun split_on :: "string \<Rightarrow> string \<Rightarrow> string list" where
  \<comment> \<open>\<open>s.split(sep)\<close> for a non-empty separator\<close>
  "split_on sep [] = [[]]"
| "split_on sep (c # cs) =
     (if prefix sep (c # cs) then [] # split_on sep (drop (length sep - 1) cs)
      else (case split_on sep cs of a # r \<Rightarrow> (c # a) # r | [] \<Rightarrow> [[c]]))"

fun split_ws :: "string \<Rightarrow> string \<Rightarrow> string list" where
  \<comment> \<open>\<open>s.split()\<close>: the maximal runs of non-space characters; the first argument is
      the run being read\<close>
  "split_ws cur [] = (if cur = [] then [] else [cur])"
| "split_ws cur (c # cs) =
     (if py_isspace c then (if cur = [] then split_ws [] cs else cur # split_ws [] cs)
      else split_ws (cur @ [c]) cs)"

definition py_split :: "string \<Rightarrow> string list" where
  "py_split s = split_ws [] s"

subsection \<open>Integers as text\<close>

definition digit_char :: "nat \<Rightarrow> char" where
  "digit_char d = (''0123456789'' ! d)"

fun str_nat :: "nat \<Rightarrow> string" where
  "str_nat n = (if n < 10 then [digit_char n] else str_nat (n div 10) @ [digit_char (n mod 10)])"

declare str_nat.simps [simp del]

definition str_int :: "int \<Rightarrow> string" where
  \<comment> \<open>\<open>str(n)\<close>, which is what an f-string writes for an \<open>int\<close>\<close>
  "str_int n = (if n < 0 then CHR ''-'' # str_nat (nat (- n)) else str_nat (nat n))"

definition is_digit :: "char \<Rightarrow> bool" where
  "is_digit c = (let n = (of_char c :: nat) in 48 \<le> n \<and> n \<le> 57)"

definition digit_val :: "char \<Rightarrow> nat" where
  "digit_val c = of_char c - 48"

definition int_space :: "char \<Rightarrow> bool" where
  \<comment> \<open>what \<open>int()\<close> skips around a numeral: the C-locale blanks, NEL and NBSP; unlike
      \<open>str.strip\<close> it does not skip FS..US\<close>
  "int_space c = (let n = (of_char c :: nat) in
     (9 \<le> n \<and> n \<le> 13) \<or> n = 32 \<or> n = 133 \<or> n = 160)"

fun digit_run :: "string \<Rightarrow> bool" where
  \<comment> \<open>digit (["_"] digit)*\<close>
  "digit_run [] = False"
| "digit_run [c] = is_digit c"
| "digit_run (c # d # r) =
     (is_digit c \<and> (if d = CHR ''_'' then digit_run r else digit_run (d # r)))"

definition max_str_digits :: nat where
  \<comment> \<open>\<open>sys.int_info.default_max_str_digits\<close>: longer numerals raise ValueError\<close>
  "max_str_digits = 4300"

definition digits_value :: "string \<Rightarrow> nat" where
  "digits_value ds = foldl (\<lambda>a c. 10 * a + digit_val c) 0 ds"

definition py_int :: "string \<Rightarrow> int option" where
  \<comment> \<open>\<open>int(s)\<close> in base 10; \<open>None\<close> is ValueError\<close>
  "py_int s =
     (let t = rev (dropWhile int_space (rev (dropWhile int_space s)));
          neg = (t \<noteq> [] \<and> hd t = CHR ''-'');
          body = (if t \<noteq> [] \<and> (hd t = CHR ''-'' \<or> hd t = CHR ''+'') then tl t else t);
          ds = filter is_digit body
      in if digit_run body \<and> length ds \<le> max_str_digits
         then Some (if neg then - int (digits_value ds) else int (digits_value ds))
         else None)"

section \<open>Host validator\<close>

text \<open>
  \<open>valid_host_header\<close> returns \<open>(False, status)\<close> or \<open>(True, "host:port")\<close>. The tuple
  assignment \<open>host, port = host_header.split(":", 1)\<close> raises ValueError unless the split
  has two pieces, which the model keeps as the \<open>Inl\<close> result.
\<close>

datatype host_result = Rejected int | Accepted string

definition host_port :: "string \<Rightarrow> int \<Rightarrow> string" where
  \<comment> \<open>the f-string \<open>f"{host}:{port}"\<close>\<close>
  "host_port host port = host @ '':'' @ str_int port"

definition acceptable_hosts :: "string \<Rightarrow> int \<Rightarrow> string set" where
  "acceptable_hosts server_host server_port =
     (let s0 = {host_port server_host server_port};
          s1 = (if server_host = ''127.0.0.1'' \<or> server_host = ''localhost''
                then insert (host_port ''127.0.0.1'' server_port)
                       (insert (host_port ''localhost'' server_port) s0)
                else s0);
          s2 = (if server_host = ''0.0.0.0''
                then insert (host_port ''127.0.0.1'' server_port)
                       (insert (host_port ''localhost'' server_port) s1)
                else s1)
      in s2)"

definition match_host :: "string \<Rightarrow> int \<Rightarrow> string \<Rightarrow> int \<Rightarrow> host_result" where
  "match_host host port server_host server_port =
     (if host_port host port \<in> acceptable_hosts server_host server_port
      then Accepted (host_port host port) else Rejected 403)"

definition valid_host_header :: "string option \<Rightarrow> string \<Rightarrow> int \<Rightarrow> py_exn + host_result" where
  "valid_host_header host_header server_host server_port =
     (case host_header of
        None \<Rightarrow> Inr (Rejected 400)
      | Some h0 \<Rightarrow>
          if h0 = [] then Inr (Rejected 400)
          else let h = py_strip h0 in
            if CHR '':'' \<in> set h then
              (case split1 '':'' h of
                 [host, port] \<Rightarrow>
                   (case py_int port of
                      None \<Rightarrow> Inr (Rejected 400)
                    | Some p \<Rightarrow> Inr (match_host host p server_host server_port))
               | _ \<Rightarrow> Inl ValueError)
            else Inr (match_host h server_port server_host server_port))"

section \<open>Wire codec: parse_http_request\<close>

text \<open>
  The parsed request is a Python dict with the keys \<open>method\<close>, \<open>path\<close>, \<open>version\<close>,
  \<open>headers\<close> and \<open>body\<close>; \<open>headers\<close> is a plain \<open>dict\<close> from \<open>str\<close> to \<open>str\<close>, which
  the server only reads with \<open>get\<close>. Decoding the buffer as ISO-8859-1 cannot fail and is
  the identity on \<^typ>\<open>string\<close>, as is encoding the body back. Indexing a list out of range
  and unpacking a list of the wrong length raise, the first outside any handler, so both
  stay visible as \<open>Inl\<close> results; \<open>Inr None\<close> is the \<open>return None\<close> of the source.
\<close>

record request =
  req_method :: string
  req_path :: string
  req_version :: string
  req_headers :: "string \<rightharpoonup> string"
  req_body :: string

definition add_header :: "(string \<rightharpoonup> string) \<Rightarrow> string \<Rightarrow> py_exn + (string \<rightharpoonup> string)" where
  \<comment> \<open>one turn of the loop over \<open>lines[1:]\<close>\<close>
  "add_header hs hdr =
     (if CHR '':'' \<in> set hdr then
        (case split1 '':'' hdr of
           [k, v] \<Rightarrow> Inr (hs(py_strip k \<mapsto> py_strip v))
         | _ \<Rightarrow> Inl ValueError)
      else Inr hs)"

fun parse_headers :: "(string \<rightharpoonup> string) \<Rightarrow> string list \<Rightarrow> py_exn + (string \<rightharpoonup> string)" where
  "parse_headers hs [] = Inr hs"
| "parse_headers hs (hdr # rest) =
     (case add_header hs hdr of Inl e \<Rightarrow> Inl e | Inr hs' \<Rightarrow> parse_headers hs' rest)"

definition parse_http_request :: "string \<Rightarrow> py_exn + request option" where
  "parse_http_request raw_bytes =
     (case split1 (CRLF @ CRLF) raw_bytes of
        [] \<Rightarrow> Inl IndexError
      | head # after \<Rightarrow>
          let body = (case after of [] \<Rightarrow> [] | b # _ \<Rightarrow> b);
              lines = split_on CRLF head
          in (case lines of
                [] \<Rightarrow> Inr None
              | first # rest \<Rightarrow>
                  (case py_split first of
                     [m, p, v] \<Rightarrow>
                       (case parse_headers Map.empty rest of
                          Inl e \<Rightarrow> Inl e
                        | Inr hs \<Rightarrow>
                            Inr (Some \<lparr>req_method = m, req_path = p, req_version = v,
                                        req_headers = hs, req_body = body\<rparr>))
                   | _ \<Rightarrow> Inr None)))"

text \<open>
  Observers and the reading of the head that the claims use: the first line, the lines
  after it, and the \<open>(name, value)\<close> pairs of the lines that hold a colon, each side
  stripped, in the order sent.
\<close>

definition first_line :: "string \<Rightarrow> string" where
  "first_line raw = hd (split1 CRLF raw)"

definition head_of :: "string \<Rightarrow> string" where
  "head_of raw = hd (split1 (CRLF @ CRLF) raw)"

definition header_fields :: "string list \<Rightarrow> (string \<times> string) list" where
  "header_fields lines =
     map (\<lambda>l. (py_strip (takeWhile (\<lambda>c. c \<noteq> CHR '':'') l),
                py_strip (tl (dropWhile (\<lambda>c. c \<noteq> CHR '':'') l))))
         (filter (\<lambda>l. CHR '':'' \<in> set l) lines)"

definition parsed_header :: "string \<Rightarrow> string \<Rightarrow> string option option" where
  \<comment> \<open>\<open>req["headers"].get(name)\<close> of a buffer that parses\<close>
  "parsed_header raw name =
     (case parse_http_request raw of Inr (Some r) \<Rightarrow> Some (req_headers r name) | _ \<Rightarrow> None)"

section \<open>Wire codec: make_response\<close>

text \<open>
  A headers \<open>dict\<close> keeps insertion order, which \<open>make_response\<close> writes out, so it is an
  association list with distinct keys here. The head and a \<open>str\<close> body are encoded as
  UTF-8; for code points below 256 that is one byte below 128 and two bytes from 128 on.
  \<open>rfc7231_date()\<close> reads the clock; its value is the first argument.
\<close>

type_synonym hdrs = "(string \<times> string) list"

definition setdefault :: "string \<Rightarrow> string \<Rightarrow> hdrs \<Rightarrow> hdrs" where
  \<comment> \<open>\<open>d.setdefault(k, v)\<close>\<close>
  "setdefault k v d = (case map_of d k of None \<Rightarrow> d @ [(k, v)] | Some _ \<Rightarrow> d)"

fun dict_set :: "string \<Rightarrow> string \<Rightarrow> hdrs \<Rightarrow> hdrs" where
  \<comment> \<open>\<open>d[k] = v\<close>\<close>
  "dict_set k v [] = [(k, v)]"
| "dict_set k v ((k', v') # d) = (if k' = k then (k, v) # d else (k', v') # dict_set k v d)"

definition dict_update :: "hdrs \<Rightarrow> hdrs \<Rightarrow> hdrs" where
  \<comment> \<open>\<open>d.update(e)\<close>\<close>
  "dict_update d e = foldl (\<lambda>acc (k, v). dict_set k v acc) d e"

definition utf8_char :: "char \<Rightarrow> string" where
  "utf8_char c = (let n = (of_char c :: nat) in
     if n < 128 then [c] else [char_of (192 + n div 64), char_of (128 + n mod 64)])"

definition utf8_encode :: "string \<Rightarrow> string" where
  "utf8_encode s = concat (map utf8_char s)"

definition SERVER_NAME :: string where
  "SERVER_NAME = ''Multi-threaded HTTP Server''"

definition header_line :: "string \<times> string \<Rightarrow> string" where
  "header_line kv = fst kv @ '': '' @ snd kv @ CRLF"

definition response_headers :: "string \<Rightarrow> hdrs \<Rightarrow> string \<Rightarrow> hdrs" where
  \<comment> \<open>the three \<open>setdefault\<close> calls; \<open>body\<close> is the encoded body\<close>
  "response_headers date headers body =
     setdefault ''Content-Length'' (str_nat (length body))
       (setdefault ''Server'' SERVER_NAME (setdefault ''Date'' date headers))"

definition make_response :: "string \<Rightarrow> int \<Rightarrow> string \<Rightarrow> hdrs \<Rightarrow> string \<Rightarrow> string" where
  "make_response date status_code reason headers body =
     (let status_line = ''HTTP/1.1 '' @ str_int status_code @ '' '' @ reason @ CRLF;
          hdrs = response_headers date headers body;
          header_lines = concat (map header_line hdrs)
      in utf8_encode (status_line @ header_lines @ CRLF) @ body)"

section \<open>Sockets\<close>

text \<open>
  A connected socket is what the peer will deliver (\<open>inbox\<close>: one event per \<open>recv\<close> that
  finds something, none left meaning end of stream), what has been written to it (one
  entry of \<open>sent\<close> per \<open>sendall\<close>), whether the peer has gone away, in which case
  \<open>sendall\<close> raises, and whether \<open>close\<close> was called.
\<close>

datatype recv_event = Data string | Timeout | Reset

record sock =
  inbox :: "recv_event list"
  sent :: "string list"
  peer_gone :: bool
  closed :: bool


definition sendall :: "string \<Rightarrow> sock \<Rightarrow> sock option" where
  \<comment> \<open>\<open>sock.sendall(data)\<close>; \<open>None\<close> is OSError\<close>
  "sendall data s =
     (if peer_gone s \<or> closed s then None else Some (s\<lparr>sent := sent s @ [data]\<rparr>))"

definition close_sock :: "sock \<Rightarrow> sock" where
  "close_sock s = s\<lparr>closed := True\<rparr>"

definition error_body :: "int \<Rightarrow> string \<Rightarrow> string" where
  "error_body status_code reason =
     ''<html><body><h1>'' @ str_int status_code @ '' '' @ reason @ ''</h1></body></html>''"

definition send_error ::
  "string \<Rightarrow> sock \<Rightarrow> int \<Rightarrow> string \<Rightarrow> hdrs option \<Rightarrow> string option \<Rightarrow> sock" where
  \<comment> \<open>a failed write is swallowed\<close>
  "send_error date s status_code reason extra_headers body_text =
     (let body = (case body_text of Some t \<Rightarrow> t | None \<Rightarrow> error_body status_code reason);
          headers = [(''Content-Type'', ''text/html; charset=utf-8'')];
          headers = (case extra_headers of
                       None \<Rightarrow> headers
                     | Some e \<Rightarrow> if e = [] then headers else dict_update headers e);
          resp = make_response date status_code reason headers (utf8_encode body)
      in case sendall resp s of None \<Rightarrow> s | Some s' \<Rightarrow> s')"

section \<open>File system, clock, libraries\<close>

text \<open>
  The file system is a snapshot: what \<open>os.path.realpath\<close> answers (\<open>None\<close> when it
  raises, as on an embedded NUL), what a path names, and where \<open>open(path, "w")\<close>
  succeeds. A regular file has its bytes and whether \<open>open(path, "rb")\<close> succeeds.
  Two names of one file are two entries; the claims never read a file under a second name.

  \<open>urllib.parse\<close> and \<open>json\<close> are libraries of the interpreter, not code of the server:
  the environment holds \<open>urlparse(path).path\<close> (\<open>None\<close> when \<open>urlparse\<close> raises ValueError),
  \<open>unquote\<close>, \<open>json.loads(b.decode("utf-8"))\<close> (\<open>None\<close> when either step raises) and what
  \<open>json.dump(v, f, indent=2)\<close> does to a UTF-8 text file just opened for writing. It also
  holds the directory of server.py, the bind address, the clock and the random draws
  \<open>floor(random() * n)\<close> that \<open>random.choices\<close> makes.

  \<open>json.dump\<close> writes the text piece by piece and can raise on the way, as it does with
  RecursionError on a value nested deeper than the interpreter's recursion limit allows;
  the \<open>with\<close> block then closes the file with the pieces written so far. So its outcome
  is the bytes that the file holds when the block is left, and whether the block was
  left normally or by an exception.
\<close>

datatype dumped = Complete string | Broken string

datatype fnode = Directory | Regular string bool

record filesys =
  realpath :: "string \<Rightarrow> string option"
  node :: "string \<Rightarrow> fnode option"
  writable :: "string \<Rightarrow> bool"

record clock =
  year :: nat
  month :: nat
  day :: nat
  hour :: nat
  minute :: nat
  second :: nat

record 'j env =
  BASE_DIR :: string
  SERVER_HOST :: string
  SERVER_PORT :: int
  urlparse_path :: "string \<Rightarrow> string option"
  unquote :: "string \<Rightarrow> string"
  loads_utf8 :: "string \<Rightarrow> 'j option"
  dump_utf8 :: "'j \<Rightarrow> dumped"
  date :: string
  now :: clock
  draw :: "nat \<Rightarrow> nat"

definition path_join :: "string \<Rightarrow> string \<Rightarrow> string" where
  \<comment> \<open>\<open>os.path.join(a, b)\<close> on POSIX\<close>
  "path_join a b =
     (if prefix ''/'' b then b
      else if a = [] \<or> last a = CHR ''/'' then a @ b
      else a @ ''/'' @ b)"

definition RESOURCE_DIR :: "'j env \<Rightarrow> string" where
  "RESOURCE_DIR e = path_join (BASE_DIR e) ''resources''"

definition UPLOADS_DIR :: "'j env \<Rightarrow> string" where
  "UPLOADS_DIR e = path_join (RESOURCE_DIR e) ''uploads''"

definition basename :: "string \<Rightarrow> string" where
  \<comment> \<open>\<open>os.path.basename\<close>: what follows the last slash\<close>
  "basename p = rev (takeWhile (\<lambda>c. c \<noteq> CHR ''/'') (rev p))"

definition splitext_ext :: "string \<Rightarrow> string" where
  \<comment> \<open>\<open>os.path.splitext(p)[1]\<close>: from the last dot of the base name on, unless only dots
      come before it\<close>
  "splitext_ext p =
     (let b = basename p;
          after = rev (takeWhile (\<lambda>c. c \<noteq> CHR ''.'') (rev b));
          stem = take (length b - length after - 1) b
      in if CHR ''.'' \<in> set b \<and> (\<exists>c \<in> set stem. c \<noteq> CHR ''.'') then CHR ''.'' # after else [])"

section \<open>Path resolver\<close>

definition safe_join_resources :: "'j env \<Rightarrow> filesys \<Rightarrow> string \<Rightarrow> py_exn + string option" where
  \<comment> \<open>\<open>urlparse\<close> is called outside the \<open>try\<close>, so its ValueError leaves the function\<close>
  "safe_join_resources e fs path =
     (if path = [] then Inr None
      else case urlparse_path e path of
        None \<Rightarrow> Inl ValueError
      | Some parsed_path \<Rightarrow>
          let clean_path = unquote e parsed_path in
          if py_in ''..'' clean_path \<or> prefix ''//'' clean_path then Inr None
          else
            let clean_path = (if prefix ''/'' clean_path then tl clean_path else clean_path);
                clean_path = (if clean_path = [] then ''index.html'' else clean_path);
                candidate = path_join (RESOURCE_DIR e) clean_path
            in (case realpath fs candidate of
                  None \<Rightarrow> Inr None
                | Some cand_real \<Rightarrow>
                    (case realpath fs (RESOURCE_DIR e) of
                       None \<Rightarrow> Inr None
                     | Some res_real \<Rightarrow>
                         if \<not> prefix res_real cand_real then Inr None
                         else Inr (Some cand_real))))"

definition path_parts :: "string \<Rightarrow> string list" where
  \<comment> \<open>the non-empty components of a path\<close>
  "path_parts p = filter (\<lambda>x. x \<noteq> []) (split_on ''/'' p)"

definition dir_prefix :: "string \<Rightarrow> string \<Rightarrow> bool" where
  \<comment> \<open>\<open>root\<close> is \<open>p\<close> or one of the directories above \<open>p\<close>\<close>
  "dir_prefix root p = prefix (path_parts root) (path_parts p)"

section \<open>File responder: handle_get\<close>

definition KEEP_ALIVE_TIMEOUT :: int where
  "KEEP_ALIVE_TIMEOUT = 30"

definition KEEP_ALIVE_MAX_REQUESTS :: int where
  "KEEP_ALIVE_MAX_REQUESTS = 100"

definition FILE_READ_CHUNK :: nat where
  "FILE_READ_CHUNK = 8192"

definition SUPPORTED_BINARY :: "string set" where
  "SUPPORTED_BINARY = {''.txt'', ''.png'', ''.jpg'', ''.jpeg''}"

definition connection_value :: "bool \<Rightarrow> string" where
  \<comment> \<open>\<open>"keep-alive" if keep_alive else "close"\<close>\<close>
  "connection_value keep_alive = (if keep_alive then ''keep-alive'' else ''close'')"

fun chunks :: "nat \<Rightarrow> string \<Rightarrow> string list" where
  \<comment> \<open>what successive \<open>f.read(n)\<close> return until the empty read\<close>
  "chunks n xs = (if n = 0 \<or> xs = [] then [] else take n xs # chunks n (drop n xs))"

declare chunks.simps [simp del]

fun send_chunks :: "string list \<Rightarrow> sock \<Rightarrow> sock option" where
  "send_chunks [] s = Some s"
| "send_chunks (c # cs) s = (case sendall c s of None \<Rightarrow> None | Some s' \<Rightarrow> send_chunks cs s')"

definition html_headers :: "string \<Rightarrow> bool \<Rightarrow> hdrs" where
  "html_headers content keep_alive =
     [(''Content-Type'', ''text/html; charset=utf-8''),
      (''Content-Length'', str_nat (length content)),
      (''Connection'', connection_value keep_alive),
      (''Keep-Alive'', ''timeout='' @ str_int KEEP_ALIVE_TIMEOUT @ '', max=''
                         @ str_int KEEP_ALIVE_MAX_REQUESTS)]"

definition binary_headers :: "nat \<Rightarrow> string \<Rightarrow> bool \<Rightarrow> hdrs" where
  \<open>binary_headers file_size filename keep_alive =
     [(''Content-Type'', ''application/octet-stream''),
      (''Content-Length'', str_nat file_size),
      (''Content-Disposition'', ''attachment; filename="'' @ filename @ ''"''),
      (''Connection'', connection_value keep_alive)]\<close>

definition handle_get :: "'j env \<Rightarrow> filesys \<Rightarrow> sock \<Rightarrow> string \<Rightarrow> bool \<Rightarrow> py_exn + sock" where
  \<comment> \<open>every failure inside the \<open>try\<close> (a write to a peer that is gone, a file that cannot
      be opened) ends in \<open>send_error(sock, 500, ...)\<close>\<close>
  "handle_get e fs s path keep_alive =
     (case safe_join_resources e fs path of
        Inl x \<Rightarrow> Inl x
      | Inr None \<Rightarrow> Inr (send_error (date e) s 404 ''Not Found'' None None)
      | Inr (Some file_path) \<Rightarrow>
          (case node fs file_path of
             Some (Regular content readable) \<Rightarrow>
               let ext = py_lower (splitext_ext file_path);
                   failed = (\<lambda>s'. send_error (date e) s' 500 ''Internal Server Error'' None None)
               in if ext = ''.html'' then
                    (if \<not> readable then Inr (failed s)
                     else case sendall (make_response (date e) 200 ''OK''
                                         (html_headers content keep_alive) content) s of
                            None \<Rightarrow> Inr (failed s)
                          | Some s' \<Rightarrow> Inr s')
                  else if ext \<in> SUPPORTED_BINARY then
                    (case sendall (make_response (date e) 200 ''OK''
                                     (binary_headers (length content) (basename file_path)
                                        keep_alive) []) s of
                       None \<Rightarrow> Inr (failed s)
                     | Some s1 \<Rightarrow>
                         if \<not> readable then Inr (failed s1)
                         else (case send_chunks (chunks FILE_READ_CHUNK content) s1 of
                                 None \<Rightarrow> Inr (failed s1)
                               | Some s2 \<Rightarrow> Inr s2))
                  else Inr (send_error (date e) s 415 ''Unsupported Media Type'' None None)
           | _ \<Rightarrow> Inr (send_error (date e) s 404 ''Not Found'' None None)))"

section \<open>JSON upload responder: handle_post\<close>

definition zpad :: "nat \<Rightarrow> nat \<Rightarrow> string" where
  \<comment> \<open>a number zero-padded to a width, as \<open>%m\<close>, \<open>%d\<close>, \<open>%H\<close>, \<open>%M\<close> and \<open>%S\<close> write it\<close>
  "zpad w n = replicate (w - length (str_nat n)) (CHR ''0'') @ str_nat n"

definition strftime_stamp :: "clock \<Rightarrow> string" where
  \<comment> \<open>\<open>strftime("%Y%m%d_%H%M%S")\<close>; \<open>%Y\<close> is the year in decimal, which the C library does
      not pad: four digits from the year 1000 on\<close>
  "strftime_stamp t =
     str_nat (year t) @ zpad 2 (month t) @ zpad 2 (day t) @ ''_''
     @ zpad 2 (hour t) @ zpad 2 (minute t) @ zpad 2 (second t)"

definition alphabet :: string where
  \<comment> \<open>\<open>string.ascii_lowercase + string.digits\<close>\<close>
  "alphabet = ''abcdefghijklmnopqrstuvwxyz0123456789''"

definition random_choices :: "(nat \<Rightarrow> nat) \<Rightarrow> string \<Rightarrow> nat \<Rightarrow> string" where
  \<comment> \<open>\<open>random.choices(population, k=k)\<close> from the draws\<close>
  "random_choices d population k = map (\<lambda>i. population ! (d i mod length population)) [0..<k]"

definition hex_digit :: "nat \<Rightarrow> char" where
  "hex_digit d = (''0123456789abcdef'' ! d)"

definition json_esc :: "char \<Rightarrow> string" where
  \<comment> \<open>one character of a string under \<open>json.dumps\<close> with \<open>ensure_ascii\<close>\<close>
  "json_esc c = (let n = (of_char c :: nat) in
     if n = 34 then [CHR 0x5C, CHR 0x22]
     else if n = 92 then [CHR 0x5C, CHR 0x5C]
     else if n = 10 then [CHR 0x5C, CHR ''n'']
     else if n = 13 then [CHR 0x5C, CHR ''r'']
     else if n = 9 then [CHR 0x5C, CHR ''t'']
     else if n = 8 then [CHR 0x5C, CHR ''b'']
     else if n = 12 then [CHR 0x5C, CHR ''f'']
     else if 32 \<le> n \<and> n \<le> 126 then [c]
     else [CHR 0x5C, CHR ''u'', CHR ''0'', CHR ''0'', hex_digit (n div 16), hex_digit (n mod 16)])"

definition json_str :: "string \<Rightarrow> string" where
  "json_str s = [CHR 0x22] @ concat (map json_esc s) @ [CHR 0x22]"

fun join_with :: "string \<Rightarrow> string list \<Rightarrow> string" where
  \<comment> \<open>\<open>sep.join(xs)\<close>\<close>
  "join_with sep [] = []"
| "join_with sep [x] = x"
| "join_with sep (x # y # r) = x @ sep @ join_with sep (y # r)"

definition json_dumps_obj :: "(string \<times> string) list \<Rightarrow> string" where
  \<comment> \<open>\<open>json.dumps(d)\<close> for a dict from \<open>str\<close> to \<open>str\<close>\<close>
  "json_dumps_obj d =
     ''{'' @ join_with '', '' (map (\<lambda>kv. json_str (fst kv) @ '': '' @ json_str (snd kv)) d) @ ''}''"

definition upload_filename :: "'j env \<Rightarrow> string" where
  "upload_filename e =
     ''upload_'' @ strftime_stamp (now e) @ ''_'' @ random_choices (draw e) alphabet 4 @ ''.json''"

definition handle_post ::
  "'j env \<Rightarrow> filesys \<Rightarrow> sock \<Rightarrow> (string \<rightharpoonup> string) \<Rightarrow> string \<Rightarrow> bool
     \<Rightarrow> py_exn + (filesys \<times> sock)" where
  \<comment> \<open>every failure inside the second \<open>try\<close> ends in \<open>send_error(sock, 500, ...)\<close>: a file
      that cannot be opened for writing, a \<open>json.dump\<close> that raises, which leaves the file
      with what was written, and a write to a peer that is gone, which leaves the file
      complete\<close>
  "handle_post e fs s headers body_bytes keep_alive =
     (case split1 '';'' (case headers ''Content-Type'' of None \<Rightarrow> [] | Some v \<Rightarrow> v) of
        [] \<Rightarrow> Inl IndexError
      | first # _ \<Rightarrow>
          let content_type = py_strip first in
          if content_type \<noteq> ''application/json''
          then Inr (fs, send_error (date e) s 415 ''Unsupported Media Type'' None None)
          else (case loads_utf8 e body_bytes of
                  None \<Rightarrow> Inr (fs, send_error (date e) s 400 ''Bad Request'' None None)
                | Some data \<Rightarrow>
                    let filename = upload_filename e;
                        filepath_abs = path_join (UPLOADS_DIR e) filename;
                        failed = (\<lambda>fs' s'. Inr (fs', send_error (date e) s' 500
                                                     ''Internal Server Error'' None None))
                    in if \<not> writable fs filepath_abs then failed fs s
                       else
                         (case dump_utf8 e data of
                            Broken written \<Rightarrow>
                              failed (fs\<lparr>node := (node fs)(filepath_abs \<mapsto>
                                                     Regular written True)\<rparr>) s
                          | Complete written \<Rightarrow>
                              let fs' = fs\<lparr>node := (node fs)(filepath_abs \<mapsto>
                                                        Regular written True)\<rparr>;
                                  resp_body = [(''status'', ''success''),
                                               (''message'', ''File created successfully''),
                                               (''filepath'', ''/uploads/'' @ filename)];
                                  body_bytes_out = utf8_encode (json_dumps_obj resp_body);
                                  headers_out = [(''Content-Type'', ''application/json''),
                                                 (''Content-Length'',
                                                    str_nat (length body_bytes_out)),
                                                 (''Connection'', connection_value keep_alive)]
                              in (case sendall (make_response (date e) 201 ''Created''
                                                  headers_out body_bytes_out) s of
                                    None \<Rightarrow> failed fs' s
                                  | Some s' \<Rightarrow> Inr (fs', s')))))"

section \<open>Connection handler\<close>








section \<open>Worker pool and accept loop\<close>

text \<open>
  \<open>ThreadPool.submit\<close> calls \<open>put_nowait\<close> on a \<open>queue.Queue(maxsize=CONN_QUEUE_MAX)\<close>, which
  appends under the queue's lock unless the queue holds \<open>maxsize\<close> items, and raises
  \<open>queue.Full\<close> then. One turn of the accept loop takes the accepted socket.
\<close>

definition CONN_QUEUE_MAX :: nat where
  "CONN_QUEUE_MAX = 200"

definition submit :: "'c list \<Rightarrow> 'c \<Rightarrow> bool \<times> 'c list" where
  "submit task_queue item =
     (if length task_queue < CONN_QUEUE_MAX then (True, task_queue @ [item])
      else (False, task_queue))"

definition busy_response :: "string \<Rightarrow> string" where
  "busy_response d =
     make_response d 503 ''Service Unavailable''
       [(''Retry-After'', ''5''), (''Content-Type'', ''text/html; charset=utf-8''),
        (''Connection'', ''close'')]
       (utf8_encode ''<html><body><h1>503 Service Unavailable</h1></body></html>'')"

definition accept_step :: "string \<Rightarrow> 'a list \<Rightarrow> 'a \<Rightarrow> sock \<Rightarrow> 'a list \<times> sock" where
  \<comment> \<open>the body of \<open>while True\<close> in \<open>start_server\<close>, from the accepted connection on; the
      queue holds the handle \<open>item\<close> of the socket; \<open>except Exception: pass\<close> skips what
      follows a failed write\<close>
  "accept_step d task_queue item client_sock =
     (case submit task_queue item of
        (accepted, task_queue') \<Rightarrow>
          if \<not> accepted then
            (case sendall (busy_response d) client_sock of
               None \<Rightarrow> (task_queue', client_sock)
             | Some s' \<Rightarrow> (task_queue', close_sock s'))
          else (task_queue', client_sock))"

section \<open>Reading the claims\<close>



definition error_response :: "string \<Rightarrow> int \<Rightarrow> string \<Rightarrow> string" where
  \<comment> \<open>the bytes that \<open>send_error(sock, status_code, reason)\<close> writes\<close>
  "error_response d status_code reason =
     make_response d status_code reason [(''Content-Type'', ''text/html; charset=utf-8'')]
       (utf8_encode (error_body status_code reason))"

definition media_type :: "(string \<rightharpoonup> string) \<Rightarrow> string" where
  \<comment> \<open>the text before the first \<open>;\<close> of Content-Type, stripped, which \<open>handle_post\<close> compares\<close>
  "media_type headers =
     py_strip (hd (split1 '';'' (case headers ''Content-Type'' of None \<Rightarrow> [] | Some v \<Rightarrow> v)))"

definition upload_path :: "'j env \<Rightarrow> string" where
  \<comment> \<open>where an upload is written\<close>
  "upload_path e = path_join (UPLOADS_DIR e) (upload_filename e)"

definition upload_reply_body :: "'j env \<Rightarrow> string" where
  "upload_reply_body e =
     utf8_encode (json_dumps_obj [(''status'', ''success''),
                                  (''message'', ''File created successfully''),
                                  (''filepath'', ''/uploads/'' @ upload_filename e)])"

definition upload_reply :: "'j env \<Rightarrow> bool \<Rightarrow> string" where
  \<comment> \<open>the bytes of the 201 response\<close>
  "upload_reply e keep_alive =
     make_response (date e) 201 ''Created''
       [(''Content-Type'', ''application/json''),
        (''Content-Length'', str_nat (length (upload_reply_body e))),
        (''Connection'', connection_value keep_alive)]
       (upload_reply_body e)"



section \<open>JSON text: what json.dump writes and how it is read back\<close>

text \<open>
  Claim C7 speaks of the content of the uploaded file parsed as JSON. The file is written
  by \<open>json.dump(data, f, indent=2)\<close>, so this section gives the text that the encoder of
  CPython's \<open>json\<close> package produces with \<open>indent=2\<close> and its other defaults
  (\<open>ensure_ascii\<close>, separators \<open>","\<close> and \<open>": "\<close>), and the decoder of the same package on
  ASCII text, and the round trip is proved between the two.

  A value is what \<open>json.loads\<close> returns: \<open>None\<close>, a \<open>bool\<close>, an \<open>int\<close>, a \<open>float\<close>, a \<open>str\<close>
  (a list of code points), a \<open>list\<close>, or a \<open>dict\<close> with \<open>str\<close> keys, kept in insertion order.
  Floating-point arithmetic is not modelled: a \<open>float\<close> is a value of an open type, the
  encoder writes it with a function that is given (\<open>float.__repr__\<close>, \<open>NaN\<close>, \<open>Infinity\<close>), the
  decoder reads a numeral with a fraction or an exponent with a function that is given,
  and the round trip is proved for values without a \<open>float\<close>.
\<close>

datatype 'f json = JNull | JBool bool | JInt int | JFloat 'f | JStr "nat list"
  | JArr "'f json list" | JObj "(nat list \<times> 'f json) list"

subsection \<open>The encoder\<close>

definition hex4 :: "nat \<Rightarrow> string" where
  \<comment> \<open>\<open>'{0:04x}'.format(n)\<close> below 0x10000\<close>
  "hex4 n = [hex_digit (n div 4096 mod 16), hex_digit (n div 256 mod 16),
             hex_digit (n div 16 mod 16), hex_digit (n mod 16)]"

definition esc_ascii :: "nat \<Rightarrow> string" where
  \<comment> \<open>one code point under \<open>encode_basestring_ascii\<close>: the short escapes, the characters
      from the blank to the tilde as they are, \<open>\uXXXX\<close> for the rest of the basic plane,
      a surrogate pair above it\<close>
  "esc_ascii c =
     (if c = 34 then [CHR 0x5C, CHR 0x22]
      else if c = 92 then [CHR 0x5C, CHR 0x5C]
      else if c = 10 then [CHR 0x5C, CHR ''n'']
      else if c = 13 then [CHR 0x5C, CHR ''r'']
      else if c = 9 then [CHR 0x5C, CHR ''t'']
      else if c = 8 then [CHR 0x5C, CHR ''b'']
      else if c = 12 then [CHR 0x5C, CHR ''f'']
      else if 32 \<le> c \<and> c \<le> 126 then [char_of c]
      else if c < 65536 then [CHR 0x5C, CHR ''u''] @ hex4 c
      else [CHR 0x5C, CHR ''u''] @ hex4 (55296 + (c - 65536) div 1024 mod 1024)
           @ [CHR 0x5C, CHR ''u''] @ hex4 (56320 + (c - 65536) mod 1024))"

definition encode_str :: "nat list \<Rightarrow> string" where
  "encode_str s = [CHR 0x22] @ concat (map esc_ascii s) @ [CHR 0x22]"

definition newline_indent :: "nat \<Rightarrow> string" where
  \<comment> \<open>\<open>'\n' + _indent * _current_indent_level\<close> with an indent of two blanks\<close>
  "newline_indent level = CHR 0x0A # replicate (2 * level) (CHR '' '')"

fun dump_text :: "('f \<Rightarrow> string) \<Rightarrow> nat \<Rightarrow> 'f json \<Rightarrow> string" where
  \<comment> \<open>the chunks of \<open>_iterencode\<close>, \<open>_iterencode_list\<close> and \<open>_iterencode_dict\<close> put together;
      \<open>ft\<close> writes a \<open>float\<close>; in a UTF-8 text file on POSIX the characters are the bytes\<close>
  "dump_text ft level JNull = ''null''"
| "dump_text ft level (JBool b) = (if b then ''true'' else ''false'')"
| "dump_text ft level (JInt n) = str_int n"
| "dump_text ft level (JFloat x) = ft x"
| "dump_text ft level (JStr s) = encode_str s"
| "dump_text ft level (JArr xs) =
     (if xs = [] then ''[]''
      else ''['' @ newline_indent (Suc level)
           @ join_with ('','' @ newline_indent (Suc level)) (map (dump_text ft (Suc level)) xs)
           @ newline_indent level @ '']'')"
| "dump_text ft level (JObj kvs) =
     (if kvs = [] then ''{}''
      else ''{'' @ newline_indent (Suc level)
           @ join_with ('','' @ newline_indent (Suc level))
               (map (\<lambda>kv. encode_str (fst kv) @ '': '' @ dump_text ft (Suc level) (snd kv)) kvs)
           @ newline_indent level @ ''}'')"

subsection \<open>The decoder\<close>

text \<open>
  The decoder follows \<open>json.decoder\<close> and \<open>json.scanner\<close>: \<open>scanstring\<close> in strict mode,
  \<open>JSONArray\<close> and \<open>JSONObject\<close>, which get the scanner as an argument, the number pattern,
  \<open>int\<close> for a numeral without fraction and exponent, and \<open>dict(pairs)\<close> for an object. The
  functions take the text that is left and return the value and the text after it; \<open>None\<close>
  is JSONDecodeError, or the ValueError of \<open>int\<close>. The loops of the two container parsers
  are recursions whose depth is bounded by a counter, and \<open>json_loads_ascii\<close> starts it
  above the length of the text. The interpreter's limit on the nesting depth is left out.
\<close>

definition json_ws :: "char \<Rightarrow> bool" where
  "json_ws c = (c = CHR '' '' \<or> c = CHR 0x09 \<or> c = CHR 0x0A \<or> c = CHR 0x0D)"

definition skip_ws :: "string \<Rightarrow> string" where
  "skip_ws s = dropWhile json_ws s"

fun hex_val :: "char \<Rightarrow> nat option" where
  "hex_val c = (let n = (of_char c :: nat) in
     if 48 \<le> n \<and> n \<le> 57 then Some (n - 48)
     else if 97 \<le> n \<and> n \<le> 102 then Some (n - 87)
     else if 65 \<le> n \<and> n \<le> 70 then Some (n - 55)
     else None)"

fun scan_hex4 :: "string \<Rightarrow> nat option" where
  \<comment> \<open>\<open>_decode_uXXXX\<close>: four hexadecimal digits\<close>
  "scan_hex4 (a # b # c # d # r) =
     (case (hex_val a, hex_val b, hex_val c, hex_val d) of
        (Some w, Some x, Some y, Some z) \<Rightarrow> Some (4096 * w + 256 * x + 16 * y + z)
      | _ \<Rightarrow> None)"
| "scan_hex4 _ = None"

definition unescape :: "char \<Rightarrow> nat option" where
  \<comment> \<open>the table \<open>BACKSLASH\<close>\<close>
  "unescape c =
     (if c = CHR 0x22 then Some 34 else if c = CHR 0x5C then Some 92
      else if c = CHR ''/'' then Some 47 else if c = CHR ''b'' then Some 8
      else if c = CHR ''f'' then Some 12 else if c = CHR ''n'' then Some 10
      else if c = CHR ''r'' then Some 13 else if c = CHR ''t'' then Some 9 else None)"

definition consp :: "'a \<Rightarrow> ('a list \<times> 'b) option \<Rightarrow> ('a list \<times> 'b) option" where
  \<comment> \<open>one more element in front of what the rest of a loop returns\<close>
  "consp x r = (case r of None \<Rightarrow> None | Some (xs, rest) \<Rightarrow> Some (x # xs, rest))"

fun scanstring :: "string \<Rightarrow> (nat list \<times> string) option" where
  \<comment> \<open>from behind the opening quote; a control character, an unknown escape and a missing
      closing quote are errors; a high surrogate escape joins with a low surrogate escape
      that follows it\<close>
  "scanstring [] = None"
| "scanstring (c # r) =
     (if c = CHR 0x22 then Some ([], r)
      else if c = CHR 0x5C then
        (case r of
           [] \<Rightarrow> None
         | esc # r1 \<Rightarrow>
             if esc = CHR ''u'' then
               (case scan_hex4 r1 of
                  None \<Rightarrow> None
                | Some uni \<Rightarrow>
                    if 55296 \<le> uni \<and> uni \<le> 56319 \<and> take 2 (drop 4 r1) = [CHR 0x5C, CHR ''u''] then
                      (case scan_hex4 (drop 6 r1) of
                         None \<Rightarrow> None
                       | Some uni2 \<Rightarrow>
                           if 56320 \<le> uni2 \<and> uni2 \<le> 57343
                           then consp (65536 + ((uni - 55296) * 1024 + (uni2 - 56320)))
                                  (scanstring (drop 10 r1))
                           else consp uni (scanstring (drop 4 r1)))
                    else consp uni (scanstring (drop 4 r1)))
             else (case unescape esc of
                     None \<Rightarrow> None
                   | Some ch \<Rightarrow> consp ch (scanstring r1)))
      else if (of_char c :: nat) < 32 then None
      else consp (of_char c) (scanstring r))"

declare scanstring.simps(2) [simp del]

definition int_part :: "string \<Rightarrow> string" where
  \<comment> \<open>\<open>0|[1-9]\d*\<close> at the head\<close>
  "int_part s =
     (case s of
        [] \<Rightarrow> []
      | c # r \<Rightarrow> if c = CHR ''0'' then ''0''
                 else if is_digit c then c # takeWhile is_digit r else [])"

definition frac_part :: "string \<Rightarrow> string" where
  \<comment> \<open>\<open>(\.\d+)?\<close>\<close>
  "frac_part s =
     (case s of
        c # d # r \<Rightarrow> if c = CHR ''.'' \<and> is_digit d then c # d # takeWhile is_digit r else []
      | _ \<Rightarrow> [])"

definition exp_part :: "string \<Rightarrow> string" where
  \<comment> \<open>\<open>([eE][-+]?\d+)?\<close>\<close>
  "exp_part s =
     (case s of
        [] \<Rightarrow> []
      | c # r \<Rightarrow>
          if c = CHR ''e'' \<or> c = CHR ''E'' then
            (let sg = (if r \<noteq> [] \<and> (hd r = CHR ''+'' \<or> hd r = CHR ''-'') then [hd r] else []);
                 ds = takeWhile is_digit (drop (length sg) r)
             in if ds = [] then [] else c # sg @ ds)
          else [])"

definition parse_number :: "(string \<Rightarrow> 'f) \<Rightarrow> string \<Rightarrow> ('f json \<times> string) option" where
  \<comment> \<open>the match of \<open>NUMBER_RE\<close>: \<open>int(integer)\<close> without fraction and exponent, else the
      \<open>float\<close> of the whole numeral, which \<open>fl\<close> gives\<close>
  "parse_number fl s =
     (let sg = (if s \<noteq> [] \<and> hd s = CHR ''-'' then ''-'' else []);
          integer = int_part (drop (length sg) s)
      in if integer = [] then None
         else
           let r1 = drop (length sg + length integer) s;
               frac = frac_part r1;
               r2 = drop (length frac) r1;
               ex = exp_part r2;
               r3 = drop (length ex) r2
           in if frac = [] \<and> ex = [] then
                (case py_int (sg @ integer) of None \<Rightarrow> None | Some n \<Rightarrow> Some (JInt n, r1))
              else Some (JFloat (fl (sg @ integer @ frac @ ex)), r3))"

fun dict_put :: "'k \<Rightarrow> 'v \<Rightarrow> ('k \<times> 'v) list \<Rightarrow> ('k \<times> 'v) list" where
  \<comment> \<open>\<open>d[k] = v\<close>: a key that is there keeps its place\<close>
  "dict_put k v [] = [(k, v)]"
| "dict_put k v ((k', v') # r) = (if k' = k then (k, v) # r else (k', v') # dict_put k v r)"

definition dict_of :: "('k \<times> 'v) list \<Rightarrow> ('k \<times> 'v) list" where
  \<comment> \<open>\<open>dict(pairs)\<close>\<close>
  "dict_of pairs = foldl (\<lambda>d kv. dict_put (fst kv) (snd kv) d) [] pairs"

definition value_step ::
  "(string \<Rightarrow> 'f) \<Rightarrow> (string \<Rightarrow> ('f json list \<times> string) option)
     \<Rightarrow> (string \<Rightarrow> ((nat list \<times> 'f json) list \<times> string) option)
     \<Rightarrow> string \<Rightarrow> ('f json \<times> string) option" where
  \<comment> \<open>\<open>_scan_once\<close>, given the two container parsers\<close>
  "value_step fl parse_array parse_object s =
     (case s of
        [] \<Rightarrow> None
      | c # r \<Rightarrow>
          if c = CHR 0x22 then
            (case scanstring r of None \<Rightarrow> None | Some (cs, r') \<Rightarrow> Some (JStr cs, r'))
          else if c = CHR ''{'' then
            (case skip_ws r of
               [] \<Rightarrow> None
             | d # r1 \<Rightarrow>
                 if d = CHR ''}'' then Some (JObj [], r1)
                 else if d = CHR 0x22 then
                   (case parse_object r1 of
                      None \<Rightarrow> None
                    | Some (kvs, r2) \<Rightarrow> Some (JObj (dict_of kvs), r2))
                 else None)
          else if c = CHR ''['' then
            (case skip_ws r of
               [] \<Rightarrow> None
             | d # r1 \<Rightarrow>
                 if d = CHR '']'' then Some (JArr [], r1)
                 else (case parse_array (d # r1) of
                         None \<Rightarrow> None
                       | Some (xs, r2) \<Rightarrow> Some (JArr xs, r2)))
          else if prefix ''null'' s then Some (JNull, drop 4 s)
          else if prefix ''true'' s then Some (JBool True, drop 4 s)
          else if prefix ''false'' s then Some (JBool False, drop 5 s)
          else (case parse_number fl s of
                  Some res \<Rightarrow> Some res
                | None \<Rightarrow>
                    if prefix ''NaN'' s then Some (JFloat (fl ''NaN''), drop 3 s)
                    else if prefix ''Infinity'' s then Some (JFloat (fl ''Infinity''), drop 8 s)
                    else if prefix ''-Infinity'' s then Some (JFloat (fl ''-Infinity''), drop 9 s)
                    else None))"

definition array_step ::
  "(string \<Rightarrow> ('v \<times> string) option) \<Rightarrow> (string \<Rightarrow> ('v list \<times> string) option)
     \<Rightarrow> string \<Rightarrow> ('v list \<times> string) option" where
  \<comment> \<open>one turn of the loop of \<open>JSONArray\<close>, from the head of a value on\<close>
  "array_step scan_once rest_items s =
     (case scan_once s of
        None \<Rightarrow> None
      | Some (x, r) \<Rightarrow>
          (case skip_ws r of
             [] \<Rightarrow> None
           | d # r1 \<Rightarrow>
               if d = CHR '']'' then Some ([x], r1)
               else if d = CHR '','' then consp x (rest_items (skip_ws r1))
               else None))"

definition object_step ::
  "(string \<Rightarrow> ('v \<times> string) option) \<Rightarrow> (string \<Rightarrow> ((nat list \<times> 'v) list \<times> string) option)
     \<Rightarrow> string \<Rightarrow> ((nat list \<times> 'v) list \<times> string) option" where
  \<comment> \<open>one turn of the loop of \<open>JSONObject\<close>, from behind the opening quote of a key on\<close>
  "object_step scan_once rest_members s =
     (case scanstring s of
        None \<Rightarrow> None
      | Some (key, r) \<Rightarrow>
          (case skip_ws r of
             [] \<Rightarrow> None
           | c # r1 \<Rightarrow>
               if c \<noteq> CHR '':'' then None
               else
                 (case scan_once (skip_ws r1) of
                    None \<Rightarrow> None
                  | Some (x, r2) \<Rightarrow>
                      (case skip_ws r2 of
                         [] \<Rightarrow> None
                       | d # r3 \<Rightarrow>
                           if d = CHR ''}'' then Some ([(key, x)], r3)
                           else if d = CHR '','' then
                             (case skip_ws r3 of
                                [] \<Rightarrow> None
                              | q # r4 \<Rightarrow>
                                  if q = CHR 0x22 then consp (key, x) (rest_members r4) else None)
                           else None))))"

fun parse_value :: "(string \<Rightarrow> 'f) \<Rightarrow> nat \<Rightarrow> string \<Rightarrow> ('f json \<times> string) option"
and parse_items :: "(string \<Rightarrow> 'f) \<Rightarrow> nat \<Rightarrow> string \<Rightarrow> ('f json list \<times> string) option"
and parse_members :: "(string \<Rightarrow> 'f) \<Rightarrow> nat \<Rightarrow> string \<Rightarrow> ((nat list \<times> 'f json) list \<times> string) option"
where
  "parse_value fl 0 s = None"
| "parse_value fl (Suc k) s = value_step fl (parse_items fl k) (parse_members fl k) s"
| "parse_items fl 0 s = None"
| "parse_items fl (Suc k) s = array_step (parse_value fl k) (parse_items fl k) s"
| "parse_members fl 0 s = None"
| "parse_members fl (Suc k) s = object_step (parse_value fl k) (parse_members fl k) s"

definition json_loads_ascii :: "(string \<Rightarrow> 'f) \<Rightarrow> string \<Rightarrow> 'f json option" where
  \<comment> \<open>\<open>json.loads(b.decode("ascii"))\<close>: one value between whitespace, nothing after it\<close>
  "json_loads_ascii fl b =
     (if \<exists>c\<in>set b. 128 \<le> (of_char c :: nat) then None
      else case parse_value fl (Suc (length b)) (skip_ws b) of
             None \<Rightarrow> None
           | Some (v, r) \<Rightarrow> if skip_ws r = [] then Some v else None)"

subsection \<open>The values that come back\<close>

text \<open>
  A \<open>str\<close> that \<open>json.loads\<close> returns holds code points below 0x110000 and no high surrogate
  followed by a low surrogate: two such escapes in a row are read as one code point. An
  \<open>int\<close> that it returns has at most 4300 digits, the limit of \<open>int\<close> on a numeral. A \<open>dict\<close>
  has each key once. The round trip is proved for the values of this kind that hold no
  \<open>float\<close>.
\<close>

fun py_str :: "nat list \<Rightarrow> bool" where
  "py_str [] = True"
| "py_str [c] = (c < 1114112)"
| "py_str (c # d # r) =
     (c < 1114112 \<and> \<not> (55296 \<le> c \<and> c \<le> 56319 \<and> 56320 \<le> d \<and> d \<le> 57343) \<and> py_str (d # r))"

fun plain_value :: "'f json \<Rightarrow> bool" where
  "plain_value JNull = True"
| "plain_value (JBool b) = True"
| "plain_value (JInt n) = (length (str_nat (nat \<bar>n\<bar>)) \<le> max_str_digits)"
| "plain_value (JFloat x) = False"
| "plain_value (JStr s) = py_str s"
| "plain_value (JArr xs) = (\<forall>x\<in>set xs. plain_value x)"
| "plain_value (JObj kvs) =
     (distinct (map fst kvs) \<and> (\<forall>kv\<in>set kvs. py_str (fst kv) \<and> plain_value (snd kv)))"

subsection \<open>Notions of the round-trip proof\<close>

definition follow :: "string \<Rightarrow> bool" where
  \<comment> \<open>what comes behind a value in the text of the encoder: the end, a comma or a line break\<close>
  "follow r = (case r of [] \<Rightarrow> True | c # _ \<Rightarrow> c = CHR '','' \<or> c = CHR 0x0A)"

definition lone_ok :: "string \<Rightarrow> bool" where
  \<comment> \<open>the text does not go on with the escape of a low surrogate\<close>
  "lone_ok t = (take 2 t = [CHR 0x5C, CHR ''u'']
     \<longrightarrow> (\<exists>u2. scan_hex4 (drop 2 t) = Some u2 \<and> \<not> (56320 \<le> u2 \<and> u2 \<le> 57343)))"

definition opener :: "char \<Rightarrow> bool" where
  \<comment> \<open>the characters that the text of a value without \<open>float\<close> starts with\<close>
  "opener c = (c = CHR 0x22 \<or> c = CHR ''{'' \<or> c = CHR ''['' \<or> c = CHR ''n'' \<or> c = CHR ''t''
               \<or> c = CHR ''f'' \<or> c = CHR ''-'' \<or> is_digit c)"

definition parses_back :: "(string \<Rightarrow> 'f) \<Rightarrow> ('f \<Rightarrow> string) \<Rightarrow> 'f json \<Rightarrow> bool" where
  "parses_back fl ft x =
     (\<forall>k level rest. length (dump_text ft level x) \<le> k \<longrightarrow> follow rest
         \<longrightarrow> parse_value fl k (dump_text ft level x @ rest) = Some (x, rest))"

definition member_text :: "('f \<Rightarrow> string) \<Rightarrow> nat \<Rightarrow> nat list \<times> 'f json \<Rightarrow> string" where
  "member_text ft l1 kv = encode_str (fst kv) @ '': '' @ dump_text ft l1 (snd kv)"

definition all_ascii :: "string \<Rightarrow> bool" where
  "all_ascii t = (\<forall>x\<in>set t. (of_char x :: nat) < 128)"

section \<open>A concrete server for the worked examples\<close>

text \<open>
  The examples run a server installed in \<open>/srv/app\<close> and bound to 127.0.0.1:8080. Its
  resource tree holds \<open>index.html\<close> (12 bytes), \<open>logo.png\<close> (2048 bytes), a file
  \<open>private.html\<close> that the server may not open, and a symbolic link \<open>pub\<close> to the
  sibling directory \<open>/srv/app/resources_old\<close>, which holds \<open>notes.html\<close>. There is no
  other link, so \<open>realpath\<close> rewrites what lies under \<open>pub\<close> and leaves every other
  normalised path as it is; it raises on a NUL.

  The library stand-ins give what the libraries give on the request targets and bodies
  of the examples: \<open>urlparse(t).path\<close> of an origin-form target without parameters is
  the text before the first \<open>?\<close> or \<open>#\<close>; \<open>unquote\<close> replaces \<open>%XX\<close>, which is all it does
  while \<open>XX\<close> stays below 80; \<open>json\<close> is given on two documents. The first is a small
  object, in its compact and its indented form. The second is an empty array inside 989
  further arrays, 1980 bytes of brackets: \<open>json.loads\<close>, whose scanner is compiled, reads
  it, and \<open>json.dump\<close>, whose encoder is a chain of Python generators, one for each level,
  runs into the recursion limit and raises RecursionError, as CPython 3.12 does. The
  file then holds the pieces written on the way down, for each level an opening bracket,
  a line break and the indentation of the next level; how many levels that is depends
  on the depth of the stack, and 980 is taken here.
\<close>

fun pct_decode :: "string \<Rightarrow> string" where
  "pct_decode (c # h # l # r) =
     (if c = CHR ''%'' then
        (case (hex_val h, hex_val l) of
           (Some a, Some b) \<Rightarrow> char_of (16 * a + b) # pct_decode r
         | _ \<Rightarrow> c # pct_decode (h # l # r))
      else c # pct_decode (h # l # r))"
| "pct_decode s = s"

definition doc_value :: "unit json" where
  "doc_value = JObj [(map of_char ''a'', JArr [JInt 1, JInt 2, JInt 3])]"

definition doc_compact :: string where
  \<open>doc_compact = ''{"a":[1,2,3]}''\<close>

definition doc_indented :: string where
  \<open>doc_indented = ''{'' @ [CHR 0x0A] @ ''  "a": ['' @ [CHR 0x0A] @ ''    1,'' @ [CHR 0x0A]
     @ ''    2,'' @ [CHR 0x0A] @ ''    3'' @ [CHR 0x0A] @ ''  ]'' @ [CHR 0x0A] @ ''}''\<close>

fun nested :: "nat \<Rightarrow> unit json" where
  "nested 0 = JArr []"
| "nested (Suc n) = JArr [nested n]"

definition deep_value :: "unit json" where
  "deep_value = nested 989"

definition deep_doc :: string where
  "deep_doc = replicate 990 (CHR ''['') @ replicate 990 (CHR '']'')"

definition deep_written :: string where
  "deep_written =
     concat (map (\<lambda>level. ''['' @ [CHR 0x0A] @ replicate (2 * level) (CHR '' '')) [1..<981])"

definition demo_env :: "unit json env" where
  "demo_env =
     \<lparr>BASE_DIR = ''/srv/app'', SERVER_HOST = ''127.0.0.1'', SERVER_PORT = 8080,
      urlparse_path = (\<lambda>t. Some (takeWhile (\<lambda>c. c \<noteq> CHR ''?'' \<and> c \<noteq> CHR ''#'') t)),
      unquote = pct_decode,
      loads_utf8 = (\<lambda>b. if b = doc_compact \<or> b = doc_indented then Some doc_value
                       else if b = deep_doc then Some deep_value else None),
      dump_utf8 = (\<lambda>v. if v = doc_value then Complete doc_indented
                      else if v = deep_value then Broken deep_written else Broken []),
      date = ''Wed, 04 Nov 2026 07:26:05 GMT'',
      now = \<lparr>year = 2026, month = 11, day = 4, hour = 7, minute = 26, second = 5\<rparr>,
      draw = (\<lambda>i. 17 * i + 10)\<rparr>"

definition demo_fs :: filesys where
  "demo_fs =
     \<lparr>realpath = (\<lambda>p. if CHR 0x00 \<in> set p then None
                      else if prefix ''/srv/app/resources/pub/'' p
                      then Some (''/srv/app/resources_old/'' @ drop 23 p)
                      else Some p),
      node = [''/srv/app/resources'' \<mapsto> Directory,
              ''/srv/app/resources/uploads'' \<mapsto> Directory,
              ''/srv/app/resources/index.html'' \<mapsto> Regular (''hello world'' @ [CHR 0x0A]) True,
              ''/srv/app/resources/logo.png'' \<mapsto> Regular (replicate 2048 (CHR 0x00)) True,
              ''/srv/app/resources/private.html'' \<mapsto> Regular ''secret'' False,
              ''/srv/app/resources/notes.md'' \<mapsto> Regular ''notes'' True,
              ''/srv/app/resources_old'' \<mapsto> Directory,
              ''/srv/app/resources_old/notes.html'' \<mapsto> Regular ''old notes'' True],
      writable = (\<lambda>p. prefix ''/srv/app/resources/uploads/'' p)\<rparr>"

definition fresh_sock :: "recv_event list \<Rightarrow> sock" where
  \<comment> \<open>a connection just accepted, with what the peer will send\<close>
  "fresh_sock evs = \<lparr>inbox = evs, sent = [], peer_gone = False, closed = False\<rparr>"





section \<open>Facts about the text primitives\<close>

lemma digit_char_cases: "d < 10 \<Longrightarrow> d = 0 \<or> d = 1 \<or> d = 2 \<or> d = 3 \<or> d = 4 \<or> d = 5 \<or> d = 6 \<or> d = 7 \<or> d = 8 \<or> d = (9::nat)"
  by arith

lemma is_digit_digit_char: "d < 10 \<Longrightarrow> is_digit (digit_char d)"
  using digit_char_cases[of d] by (auto simp: is_digit_def digit_char_def)

lemma digit_val_digit_char: "d < 10 \<Longrightarrow> digit_val (digit_char d) = d"
  using digit_char_cases[of d] by (auto simp: digit_val_def digit_char_def)

lemma str_nat_digits: "c \<in> set (str_nat n) \<Longrightarrow> is_digit c"
proof (induction n arbitrary: c rule: str_nat.induct)
  case (1 n)
  show ?case
  proof (cases "n < 10")
    case True
    with "1.prems" show ?thesis by (simp add: str_nat.simps[of n] is_digit_digit_char)
  next
    case False
    with "1.prems" "1.IH" show ?thesis
      by (auto simp: str_nat.simps[of n] is_digit_digit_char)
  qed
qed

lemma str_nat_nonempty: "str_nat n \<noteq> []"
  by (subst str_nat.simps) simp

lemma digits_value_snoc: "digits_value (ds @ [c]) = 10 * digits_value ds + digit_val c"
  by (simp add: digits_value_def)

lemma digits_value_str_nat: "digits_value (str_nat n) = n"
proof (induction n rule: str_nat.induct)
  case (1 n)
  show ?case
  proof (cases "n < 10")
    case True
    then show ?thesis by (simp add: str_nat.simps[of n] digits_value_def digit_val_digit_char)
  next
    case False
    with "1.IH" show ?thesis
      by (simp add: str_nat.simps[of n] digits_value_snoc digit_val_digit_char)
  qed
qed

lemma is_digit_not_underscore: "is_digit c \<Longrightarrow> c \<noteq> CHR ''_''"
  by (auto simp: is_digit_def)

lemma digit_run_digits: "ds \<noteq> [] \<Longrightarrow> \<forall>c\<in>set ds. is_digit c \<Longrightarrow> digit_run ds"
  by (induction ds rule: digit_run.induct) (auto simp: is_digit_not_underscore)

lemma is_digit_not_space: "is_digit c \<Longrightarrow> \<not> int_space c \<and> \<not> py_isspace c"
  by (auto simp: is_digit_def int_space_def py_isspace_def Let_def)

lemma strip_id:
  assumes "s \<noteq> []" "\<not> P (hd s)" "\<not> P (last s)"
  shows "rev (dropWhile P (rev (dropWhile P s))) = s"
proof -
  have "dropWhile P s = s" using assms by (simp add: dropWhile_eq_self_iff)
  moreover have "dropWhile P (rev s) = rev s"
    using assms by (simp add: dropWhile_eq_self_iff hd_rev)
  ultimately show ?thesis by simp
qed

lemma length_str_nat: "n < 10 ^ m \<Longrightarrow> 0 < m \<Longrightarrow> length (str_nat n) \<le> m"
proof (induction n arbitrary: m rule: str_nat.induct)
  case (1 n)
  show ?case
  proof (cases "n < 10")
    case True
    with "1.prems" show ?thesis by (simp add: str_nat.simps[of n])
  next
    case False
    then obtain k where m: "m = Suc k" using "1.prems" by (cases m) auto
    have "0 < k" using False "1.prems" m by (cases k) auto
    moreover have "n div 10 < 10 ^ k" using "1.prems" m by (simp add: less_mult_imp_div_less mult.commute)
    ultimately have "length (str_nat (n div 10)) \<le> k" using "1.IH"[OF False] by blast
    with False m show ?thesis by (simp add: str_nat.simps[of n])
  qed
qed



lemma py_int_digits:
  assumes ne: "s \<noteq> []" and dg: "\<forall>c\<in>set s. is_digit c" and len: "length s \<le> max_str_digits"
  shows "py_int s = Some (int (digits_value s))"
proof -
  have h: "is_digit (hd s)" and l: "is_digit (last s)" using ne dg by auto
  have t: "rev (dropWhile int_space (rev (dropWhile int_space s))) = s"
    using ne h l by (intro strip_id) (auto simp: is_digit_not_space)
  have nosign: "hd s \<noteq> CHR ''-''" "hd s \<noteq> CHR ''+''"
    using h by (auto simp: is_digit_def)
  have f: "filter is_digit s = s" using dg by simp
  have r: "digit_run s" by (rule digit_run_digits[OF ne dg])
  show ?thesis
    unfolding py_int_def t Let_def using nosign f r len by simp
qed

lemma py_int_minus_digits:
  assumes ne: "s \<noteq> []" and dg: "\<forall>c\<in>set s. is_digit c" and len: "length s \<le> max_str_digits"
  shows "py_int (CHR ''-'' # s) = Some (- int (digits_value s))"
proof -
  have l: "is_digit (last s)" using ne dg by auto
  have t: "rev (dropWhile int_space (rev (dropWhile int_space (CHR ''-'' # s)))) = CHR ''-'' # s"
  proof (rule strip_id)
    show "\<not> int_space (hd (CHR ''-'' # s))" by (simp add: int_space_def)
    show "\<not> int_space (last (CHR ''-'' # s))" using ne l by (simp add: is_digit_not_space)
  qed simp
  have f: "filter is_digit s = s" using dg by simp
  have r: "digit_run s" by (rule digit_run_digits[OF ne dg])
  show ?thesis
    unfolding py_int_def t Let_def using f r len by simp
qed

lemma py_int_str_int:
  assumes "length (str_nat (nat \<bar>n\<bar>)) \<le> max_str_digits"
  shows "py_int (str_int n) = Some n"
proof (cases "n < 0")
  case False
  then have "nat \<bar>n\<bar> = nat n" by simp
  with assms False show ?thesis
    using py_int_digits[of "str_nat (nat n)"] str_nat_digits[of _ "nat n"]
    by (simp add: str_int_def str_nat_nonempty digits_value_str_nat)
next
  case True
  then have "nat \<bar>n\<bar> = nat (- n)" by simp
  with assms True show ?thesis
    using py_int_minus_digits[of "str_nat (nat (- n))"] str_nat_digits[of _ "nat (- n)"]
    by (simp add: str_int_def str_nat_nonempty digits_value_str_nat)
qed

lemma str_nat_small: "n < 10 \<Longrightarrow> str_nat n = [digit_char n]"
  by (simp add: str_nat.simps)

lemma str_nat_big: "\<not> n < 10 \<Longrightarrow> str_nat n = str_nat (n div 10) @ [digit_char (n mod 10)]"
  by (subst str_nat.simps) simp

lemmas text_eval = py_strip_def py_isspace_def py_int_def int_space_def is_digit_def
  digits_value_def digit_val_def max_str_digits_def host_port_def str_int_def
  str_nat_small str_nat_big digit_char_def acceptable_hosts_def

section \<open>Claim C3: the host validator\<close>

lemma split1_colon:
  "CHR '':'' \<notin> set host \<Longrightarrow> split1 '':'' (host @ CHR '':'' # port) = [host, port]"
  by (induction host) auto

lemma length_py_strip_le: "length (py_strip s) \<le> length (dropWhile py_isspace s)"
  unfolding py_strip_def
  by (metis length_dropWhile_le length_rev)

lemma py_strip_fixed_hd:
  assumes "py_strip s = s" "s \<noteq> []"
  shows "\<not> py_isspace (hd s)"
proof
  assume sp: "py_isspace (hd s)"
  from assms(2) obtain c cs where s: "s = c # cs" by (cases s) auto
  with sp have "dropWhile py_isspace s = dropWhile py_isspace cs" by simp
  then have "length (dropWhile py_isspace s) \<le> length cs"
    by (simp add: length_dropWhile_le)
  with length_py_strip_le[of s] have "length (py_strip s) < length s" using s by simp
  with assms(1) show False by simp
qed

lemma py_strip_id:
  assumes "s \<noteq> []" "\<not> py_isspace (hd s)" "\<not> py_isspace (last s)"
  shows "py_strip s = s"
  unfolding py_strip_def using assms by (rule strip_id)

lemma acceptable_hosts_eq:
  "acceptable_hosts sh sp =
     {host_port sh sp} \<union>
     (if sh \<in> {''127.0.0.1'', ''localhost'', ''0.0.0.0''}
      then {host_port ''localhost'' sp, host_port ''127.0.0.1'' sp} else {})"
  by (auto simp: acceptable_hosts_def Let_def)

lemma valid_host_header_port:
  assumes "h \<noteq> []" "py_strip h = host @ '':'' @ port" "CHR '':'' \<notin> set host"
  shows "valid_host_header (Some h) sh sp =
     (case py_int port of None \<Rightarrow> Inr (Rejected 400)
      | Some p \<Rightarrow> Inr (match_host host p sh sp))"
  using assms by (simp add: valid_host_header_def split1_colon)

lemma valid_host_header_bare:
  assumes "h \<noteq> []" "CHR '':'' \<notin> set (py_strip h)"
  shows "valid_host_header (Some h) sh sp = Inr (match_host (py_strip h) sp sh sp)"
  using assms by (simp add: valid_host_header_def)

lemma port_digits:
  assumes "0 \<le> sp" "sp < 65536"
  shows "length (str_nat (nat \<bar>sp\<bar>)) \<le> max_str_digits"
proof -
  have "nat \<bar>sp\<bar> < 10 ^ 5" using assms by simp
  then have "length (str_nat (nat \<bar>sp\<bar>)) \<le> 5" by (rule length_str_nat) simp
  then show ?thesis by (simp add: max_str_digits_def)
qed

lemma str_int_last_digit: "is_digit (last (str_int n))"
  using str_nat_digits[of "last (str_nat (nat (- n)))" "nat (- n)"]
        str_nat_digits[of "last (str_nat (nat n))" "nat n"]
  by (simp add: str_int_def str_nat_nonempty)

lemma str_int_nonempty: "str_int n \<noteq> []"
  by (simp add: str_int_def str_nat_nonempty)

lemma valid_host_header_literal:
  assumes nc: "CHR '':'' \<notin> set host" and hs: "host = [] \<or> \<not> py_isspace (hd host)"
    and len: "length (str_nat (nat \<bar>sp\<bar>)) \<le> max_str_digits"
  shows "valid_host_header (Some (host_port host sp)) sh sp = Inr (match_host host sp sh sp)"
proof -
  let ?v = "host_port host sp"
  have ne: "?v \<noteq> []" by (simp add: host_port_def)
  have h: "\<not> py_isspace (hd ?v)"
    using hs by (cases host) (auto simp: host_port_def py_isspace_def)
  have l: "\<not> py_isspace (last ?v)"
    using str_int_last_digit[of sp] by (simp add: host_port_def str_int_nonempty is_digit_not_space)
  have st: "py_strip ?v = host @ '':'' @ str_int sp"
    using py_strip_id[OF ne h l] by (simp add: host_port_def)
  show ?thesis
    using valid_host_header_port[OF ne st nc, of sh sp] py_int_str_int[OF len] by simp
qed

text \<open>
  Claim C3. A missing or empty Host header is rejected with 400. A header that, once
  stripped, reads \<open>host:port\<close> is rejected with 400 when \<open>int(port)\<close> fails; otherwise
  the text \<open>host:port\<close> rebuilt from the host and the parsed port (or the server port when
  the header has no colon) is accepted exactly when it is in the acceptable set, and
  rejected with 403 when it is not. The acceptable set is \<open>bind_host:bind_port\<close>, extended
  by \<open>localhost:port\<close> and \<open>127.0.0.1:port\<close> exactly for the three loopback and wildcard
  bind hosts. For a bind host without colon or surrounding blanks and a port in 0..65535,
  every member of the acceptable set, sent as it is, is accepted.
\<close>

theorem valid_host_header_spec:
  "valid_host_header None sh sp = Inr (Rejected 400)
   \<and> valid_host_header (Some []) sh sp = Inr (Rejected 400)
   \<and> (h \<noteq> [] \<and> py_strip h = host @ '':'' @ port \<and> CHR '':'' \<notin> set host \<and> py_int port = None
        \<longrightarrow> valid_host_header (Some h) sh sp = Inr (Rejected 400))
   \<and> (h \<noteq> [] \<and> py_strip h = host @ '':'' @ port \<and> CHR '':'' \<notin> set host \<and> py_int port = Some p
        \<longrightarrow> valid_host_header (Some h) sh sp =
             Inr (if host_port host p \<in> acceptable_hosts sh sp
                  then Accepted (host_port host p) else Rejected 403))
   \<and> (h \<noteq> [] \<and> CHR '':'' \<notin> set (py_strip h)
        \<longrightarrow> valid_host_header (Some h) sh sp =
             Inr (if host_port (py_strip h) sp \<in> acceptable_hosts sh sp
                  then Accepted (host_port (py_strip h) sp) else Rejected 403))
   \<and> acceptable_hosts sh sp =
        {host_port sh sp} \<union>
        (if sh \<in> {''127.0.0.1'', ''localhost'', ''0.0.0.0''}
         then {host_port ''localhost'' sp, host_port ''127.0.0.1'' sp} else {})
   \<and> (CHR '':'' \<notin> set sh \<and> py_strip sh = sh \<and> 0 \<le> sp \<and> sp < 65536
        \<longrightarrow> (\<forall>v \<in> acceptable_hosts sh sp. valid_host_header (Some v) sh sp = Inr (Accepted v)))"
proof (intro conjI impI ballI)
  show "valid_host_header None sh sp = Inr (Rejected 400)"
    by (simp add: valid_host_header_def)
  show "valid_host_header (Some []) sh sp = Inr (Rejected 400)"
    by (simp add: valid_host_header_def)
  show "acceptable_hosts sh sp =
        {host_port sh sp} \<union>
        (if sh \<in> {''127.0.0.1'', ''localhost'', ''0.0.0.0''}
         then {host_port ''localhost'' sp, host_port ''127.0.0.1'' sp} else {})"
    by (rule acceptable_hosts_eq)
next
  assume "h \<noteq> [] \<and> py_strip h = host @ '':'' @ port \<and> CHR '':'' \<notin> set host \<and> py_int port = None"
  then show "valid_host_header (Some h) sh sp = Inr (Rejected 400)"
    using valid_host_header_port[of h host port sh sp] by simp
next
  assume "h \<noteq> [] \<and> py_strip h = host @ '':'' @ port \<and> CHR '':'' \<notin> set host \<and> py_int port = Some p"
  then show "valid_host_header (Some h) sh sp =
             Inr (if host_port host p \<in> acceptable_hosts sh sp
                  then Accepted (host_port host p) else Rejected 403)"
    using valid_host_header_port[of h host port sh sp] by (simp add: match_host_def)
next
  assume "h \<noteq> [] \<and> CHR '':'' \<notin> set (py_strip h)"
  then show "valid_host_header (Some h) sh sp =
             Inr (if host_port (py_strip h) sp \<in> acceptable_hosts sh sp
                  then Accepted (host_port (py_strip h) sp) else Rejected 403)"
    using valid_host_header_bare[of h sh sp] by (simp add: match_host_def)
next
  fix v
  assume a: "CHR '':'' \<notin> set sh \<and> py_strip sh = sh \<and> 0 \<le> sp \<and> sp < 65536"
    and v: "v \<in> acceptable_hosts sh sp"
  from a have len: "length (str_nat (nat \<bar>sp\<bar>)) \<le> max_str_digits" using port_digits[of sp] by simp
  from a have hs: "sh = [] \<or> \<not> py_isspace (hd sh)" using py_strip_fixed_hd[of sh] by auto
  from v consider (own) "v = host_port sh sp"
    | (lh) "v = host_port ''localhost'' sp" | (ip) "v = host_port ''127.0.0.1'' sp"
    by (auto simp: acceptable_hosts_eq split: if_splits)
  then show "valid_host_header (Some v) sh sp = Inr (Accepted v)"
  proof cases
    case own
    with a hs len v show ?thesis
      using valid_host_header_literal[of sh sp sh] by (simp add: match_host_def)
  next
    case lh
    with len v show ?thesis
      using valid_host_header_literal[of "''localhost''" sp sh]
      by (simp add: match_host_def py_isspace_def)
  next
    case ip
    with len v show ?thesis
      using valid_host_header_literal[of "''127.0.0.1''" sp sh]
      by (simp add: match_host_def py_isspace_def)
  qed
qed

theorem valid_host_header_spec_witness:
  "(''localhost:http'' \<noteq> [] \<and> py_strip ''localhost:http'' = ''localhost'' @ '':'' @ ''http''
      \<and> CHR '':'' \<notin> set ''localhost'' \<and> py_int ''http'' = None)
   \<and> valid_host_header (Some ''localhost:http'') ''127.0.0.1'' 8080 = Inr (Rejected 400)
   \<and> ('' localhost: 08080 '' \<noteq> [] \<and> py_strip '' localhost: 08080 '' = ''localhost'' @ '':'' @ '' 08080''
      \<and> py_int '' 08080'' = Some 8080)
   \<and> valid_host_header (Some '' localhost: 08080 '') ''127.0.0.1'' 8080 = Inr (Accepted ''localhost:8080'')
   \<and> (''example.org'' \<noteq> [] \<and> CHR '':'' \<notin> set (py_strip ''example.org''))
   \<and> valid_host_header (Some ''example.org'') ''127.0.0.1'' 8080 = Inr (Rejected 403)
   \<and> (CHR '':'' \<notin> set ''0.0.0.0'' \<and> py_strip ''0.0.0.0'' = ''0.0.0.0'' \<and> (0::int) \<le> 8080 \<and> (8080::int) < 65536
      \<and> ''localhost:8080'' \<in> acceptable_hosts ''0.0.0.0'' 8080)
   \<and> valid_host_header (Some ''localhost:8080'') ''0.0.0.0'' 8080 = Inr (Accepted ''localhost:8080'')"
proof -
  have h1: "''localhost:http'' \<noteq> [] \<and> py_strip ''localhost:http'' = ''localhost'' @ '':'' @ ''http''
      \<and> CHR '':'' \<notin> set ''localhost'' \<and> py_int ''http'' = None"
    by (simp add: text_eval)
  have h2: "'' localhost: 08080 '' \<noteq> [] \<and> py_strip '' localhost: 08080 '' = ''localhost'' @ '':'' @ '' 08080''
      \<and> CHR '':'' \<notin> set ''localhost'' \<and> py_int '' 08080'' = Some 8080"
    by (simp add: text_eval)
  have h3: "''example.org'' \<noteq> [] \<and> CHR '':'' \<notin> set (py_strip ''example.org'')"
    by (simp add: text_eval)
  have h4: "CHR '':'' \<notin> set ''0.0.0.0'' \<and> py_strip ''0.0.0.0'' = ''0.0.0.0'' \<and> (0::int) \<le> 8080 \<and> (8080::int) < 65536"
    by (simp add: text_eval)
  have m2: "host_port ''localhost'' 8080 = ''localhost:8080''" by (simp add: text_eval)
  have m3: "host_port (py_strip ''example.org'') 8080 \<notin> acceptable_hosts ''127.0.0.1'' 8080" by (simp add: text_eval)
  have m4: "''localhost:8080'' \<in> acceptable_hosts ''0.0.0.0'' 8080" by (simp add: text_eval)
  have m5: "''localhost:8080'' \<in> acceptable_hosts ''127.0.0.1'' 8080" by (simp add: text_eval)
  have c1: "valid_host_header (Some ''localhost:http'') ''127.0.0.1'' 8080 = Inr (Rejected 400)"
    using valid_host_header_spec[where h="''localhost:http''" and host="''localhost''"
        and port="''http''" and sh="''127.0.0.1''" and sp=8080] h1 by blast
  have c2: "valid_host_header (Some '' localhost: 08080 '') ''127.0.0.1'' 8080 = Inr (Accepted ''localhost:8080'')"
    using valid_host_header_spec[where h="'' localhost: 08080 ''" and host="''localhost''"
        and port="'' 08080''" and p=8080 and sh="''127.0.0.1''" and sp=8080] h2 m2 m5 by simp
  have c3: "valid_host_header (Some ''example.org'') ''127.0.0.1'' 8080 = Inr (Rejected 403)"
    using valid_host_header_spec[where h="''example.org''" and sh="''127.0.0.1''" and sp=8080] h3 m3
    by simp
  have c4: "valid_host_header (Some ''localhost:8080'') ''0.0.0.0'' 8080 = Inr (Accepted ''localhost:8080'')"
    using valid_host_header_spec[where sh="''0.0.0.0''" and sp=8080] h4 m4 by blast
  from h1 h2 h3 h4 m4 c1 c2 c3 c4 show ?thesis by blast
qed

section \<open>Facts about parse_http_request\<close>

lemma split1_nonempty: "split1 sep s \<noteq> []"
  by (induction s) (auto split: list.splits)

lemma split_on_nonempty: "split_on sep s \<noteq> []"
  by (induction sep s rule: split_on.induct) (auto split: list.splits)

lemma hd_split1_Cons:
  "hd (split1 sep (c # cs)) = (if prefix sep (c # cs) then [] else c # hd (split1 sep cs))"
  using split1_nonempty[of sep cs] by (cases "split1 sep cs") auto

lemma hd_split_on_Cons:
  "hd (split_on sep (c # cs)) = (if prefix sep (c # cs) then [] else c # hd (split_on sep cs))"
  using split_on_nonempty[of sep cs] by (cases "split_on sep cs") auto

lemma hd_split_on_split1: "hd (split_on sep s) = hd (split1 sep s)"
  by (induction s) (simp_all add: hd_split1_Cons hd_split_on_Cons del: split1.simps(2) split_on.simps(2))

lemma split1_no_sep: "\<not> py_in sep s \<Longrightarrow> split1 sep s = [s]"
  by (induction s) auto

lemma split1_has_colon:
  assumes "CHR '':'' \<in> set hdr"
  shows "split1 '':'' hdr =
     [takeWhile (\<lambda>c. c \<noteq> CHR '':'') hdr, tl (dropWhile (\<lambda>c. c \<noteq> CHR '':'') hdr)]"
proof -
  let ?a = "takeWhile (\<lambda>c. c \<noteq> CHR '':'') hdr" and ?d = "dropWhile (\<lambda>c. c \<noteq> CHR '':'') hdr"
  have "?d \<noteq> []" using assms by (simp add: dropWhile_eq_Nil_conv) 
  moreover have "hd ?d = CHR '':''" using assms hd_dropWhile[of "\<lambda>c. c \<noteq> CHR '':''" hdr] \<open>?d \<noteq> []\<close> by auto
  ultimately have d: "?d = CHR '':'' # tl ?d" by (cases ?d) auto
  have "hdr = ?a @ CHR '':'' # tl ?d" using d takeWhile_dropWhile_id[of "\<lambda>c. c \<noteq> CHR '':''" hdr] by simp
  moreover have "CHR '':'' \<notin> set ?a" by (auto dest: set_takeWhileD)
  ultimately show ?thesis using split1_colon[of ?a "tl ?d"] by simp
qed

lemma add_header_eq:
  "add_header hs hdr = Inr (hs ++ map_of (header_fields [hdr]))"
  by (simp add: add_header_def header_fields_def split1_has_colon map_add_def fun_eq_iff)

lemma header_fields_Cons:
  "header_fields (l # ls) = header_fields [l] @ header_fields ls"
  by (simp add: header_fields_def)

lemma parse_headers_eq:
  "parse_headers hs lines = Inr (hs ++ map_of (rev (header_fields lines)))"
proof (induction lines arbitrary: hs)
  case Nil
  then show ?case by (simp add: header_fields_def)
next
  case (Cons l ls)
  have "parse_headers hs (l # ls) = Inr ((hs ++ map_of (header_fields [l])) ++ map_of (rev (header_fields ls)))"
    by (simp add: add_header_eq Cons.IH)
  also have "(hs ++ map_of (header_fields [l])) ++ map_of (rev (header_fields ls))
     = hs ++ map_of (rev (header_fields (l # ls)))"
    by (subst header_fields_Cons) (simp add: header_fields_def map_add_assoc)
  finally show ?case .
qed

lemma parse_http_request_eq:
  "parse_http_request raw =
     (case py_split (hd (split_on CRLF (head_of raw))) of
        [m, p, v] \<Rightarrow>
           Inr (Some \<lparr>req_method = m, req_path = p, req_version = v,
                  req_headers = map_of (rev (header_fields (tl (split_on CRLF (head_of raw))))),
                  req_body = (case tl (split1 (CRLF @ CRLF) raw) of [] \<Rightarrow> [] | b # _ \<Rightarrow> b)\<rparr>)
      | _ \<Rightarrow> Inr None)"
proof -
  obtain hd1 tl1 where s: "split1 (CRLF @ CRLF) raw = hd1 # tl1"
    using split1_nonempty[of "CRLF @ CRLF" raw] by (cases "split1 (CRLF @ CRLF) raw") auto
  obtain l ls where t: "split_on CRLF hd1 = l # ls"
    using split_on_nonempty[of CRLF hd1] by (cases "split_on CRLF hd1") auto
  show ?thesis
    by (simp add: parse_http_request_def head_of_def s t parse_headers_eq Let_def
             split: list.splits)
qed

lemma prefix_CRLF_head:
  "\<not> prefix (CRLF @ CRLF) (c # cs) \<Longrightarrow>
     prefix CRLF (c # hd (split1 (CRLF @ CRLF) cs)) = prefix CRLF (c # cs)"
  by (cases cs) (auto simp add: CRLF_def hd_split1_Cons simp del: split1.simps(2))

lemma first_line_head: "hd (split1 CRLF (head_of raw)) = first_line raw"
  unfolding head_of_def first_line_def
proof (induction raw)
  case Nil
  then show ?case by simp
next
  case (Cons c cs)
  show ?case
  proof (cases "prefix (CRLF @ CRLF) (c # cs)")
    case True
    then have "prefix CRLF (c # cs)" by (rule append_prefixD)
    with True show ?thesis by (simp add: hd_split1_Cons del: split1.simps(2))
  next
    case False
    then show ?thesis
      using Cons.IH prefix_CRLF_head[OF False]
      by (simp add: hd_split1_Cons del: split1.simps(2))
  qed
qed

lemma first_line_split_on: "hd (split_on CRLF (head_of raw)) = first_line raw"
  by (simp add: hd_split_on_split1 first_line_head)

lemma head_of_no_terminator: "\<not> py_in (CRLF @ CRLF) raw \<Longrightarrow> head_of raw = raw"
  by (simp add: head_of_def split1_no_sep)

lemmas parse_eval = parse_http_request_def parsed_header_def first_line_def head_of_def
  header_fields_def CRLF_def py_split_def py_isspace_def add_header_def py_strip_def

lemmas line_eval = CRLF_def first_line_def py_split_def py_isspace_def

lemma req_headers_of_parse:
  assumes "parse_http_request raw = Inr (Some r)"
  shows "req_headers r = map_of (rev (header_fields (tl (split_on CRLF (head_of raw)))))"
proof (cases "py_split (hd (split_on CRLF (head_of raw)))")
  case Nil
  with assms show ?thesis by (simp add: parse_http_request_eq)
next
  case (Cons m t1)
  note c1 = this
  show ?thesis
  proof (cases t1)
    case Nil
    with c1 assms show ?thesis by (simp add: parse_http_request_eq)
  next
    case (Cons p t2)
    note c2 = this
    show ?thesis
    proof (cases t2)
      case Nil
      with c1 c2 assms show ?thesis by (simp add: parse_http_request_eq)
    next
      case (Cons v t3)
      with c1 c2 assms show ?thesis by (cases t3) (auto simp add: parse_http_request_eq)
    qed
  qed
qed

section \<open>Claim C10: the parser is total\<close>

text \<open>
  Claim C10. \<open>parse_http_request\<close> never raises: on every buffer it returns a request or
  \<open>None\<close>. It returns \<open>None\<close> exactly when the first line (the text before the first
  CRLF) does not split into exactly three whitespace-separated tokens. A buffer without
  CRLFCRLF whose first line has three tokens parses, with an empty body and with the
  headers read from every colon-bearing line after the first.
\<close>

theorem parse_http_request_total:
  "(\<exists>r. parse_http_request raw = Inr r)
   \<and> (parse_http_request raw = Inr None \<longleftrightarrow> length (py_split (first_line raw)) \<noteq> 3)
   \<and> (\<not> py_in (CRLF @ CRLF) raw \<and> py_split (first_line raw) = [m, p, v] \<longrightarrow>
        (\<exists>r. parse_http_request raw = Inr (Some r) \<and> req_method r = m \<and> req_path r = p
            \<and> req_version r = v \<and> req_body r = []
            \<and> req_headers r = map_of (rev (header_fields (tl (split_on CRLF raw))))))"
proof (intro conjI impI)
  show "\<exists>r. parse_http_request raw = Inr r"
    by (simp add: parse_http_request_eq split: list.splits)
  show "parse_http_request raw = Inr None \<longleftrightarrow> length (py_split (first_line raw)) \<noteq> 3"
    by (auto simp: parse_http_request_eq first_line_split_on split: list.splits)
next
  assume a: "\<not> py_in (CRLF @ CRLF) raw \<and> py_split (first_line raw) = [m, p, v]"
  then have "split1 (CRLF @ CRLF) raw = [raw]" "head_of raw = raw"
    by (simp_all add: split1_no_sep head_of_no_terminator)
  with a show "\<exists>r. parse_http_request raw = Inr (Some r) \<and> req_method r = m \<and> req_path r = p
            \<and> req_version r = v \<and> req_body r = []
            \<and> req_headers r = map_of (rev (header_fields (tl (split_on CRLF raw))))"
    using first_line_split_on[of raw] by (simp add: parse_http_request_eq)
qed

theorem parse_http_request_total_witness:
  "(\<not> py_in (CRLF @ CRLF) (''GET /a HTTP/1.0'' @ CRLF @ ''Host: h'' @ CRLF @ ''junk'')
      \<and> py_split (first_line (''GET /a HTTP/1.0'' @ CRLF @ ''Host: h'' @ CRLF @ ''junk''))
           = [''GET'', ''/a'', ''HTTP/1.0''])
   \<and> parsed_header (''GET /a HTTP/1.0'' @ CRLF @ ''Host: h'' @ CRLF @ ''junk'') ''Host'' = Some (Some ''h'')
   \<and> length (py_split (first_line (''GET /a'' @ CRLF @ CRLF))) \<noteq> 3
   \<and> parse_http_request (''GET /a'' @ CRLF @ CRLF) = Inr None"
proof -
  let ?raw = "''GET /a HTTP/1.0'' @ CRLF @ ''Host: h'' @ CRLF @ ''junk''"
  have h: "\<not> py_in (CRLF @ CRLF) ?raw \<and> py_split (first_line ?raw) = [''GET'', ''/a'', ''HTTP/1.0'']"
    by (simp add: line_eval)
  have f: "map_of (rev (header_fields (tl (split_on CRLF ?raw)))) ''Host'' = Some ''h''"
    by (simp add: CRLF_def header_fields_def py_strip_def py_isspace_def)
  have "\<exists>r. parse_http_request ?raw = Inr (Some r) \<and>
     req_headers r = map_of (rev (header_fields (tl (split_on CRLF ?raw))))"
    using parse_http_request_total[of ?raw "''GET''" "''/a''" "''HTTP/1.0''"] h by blast
  then obtain r where r: "parse_http_request ?raw = Inr (Some r)"
     "req_headers r = map_of (rev (header_fields (tl (split_on CRLF ?raw))))" by blast
  have c1: "parsed_header ?raw ''Host'' = Some (Some ''h'')"
    unfolding parsed_header_def r(1) by (simp only: sum.case option.case r(2) f)
  have n: "length (py_split (first_line (''GET /a'' @ CRLF @ CRLF))) \<noteq> 3"
    by (simp add: line_eval)
  have c2: "parse_http_request (''GET /a'' @ CRLF @ CRLF) = Inr None"
    using parse_http_request_total[of "''GET /a'' @ CRLF @ CRLF"] n by blast
  from h c1 n c2 show ?thesis by blast
qed

section \<open>Claim C2: the header mapping\<close>

lemma map_of_rev_last:
  assumes "fs = xs @ (k, v) # ys" "k \<notin> fst ` set ys"
  shows "map_of (rev fs) k = Some v"
proof -
  have "map_of (rev ys) k = None" using assms(2) by (simp add: map_of_eq_None_iff)
  then show ?thesis using assms(1) by (simp add: map_add_def)
qed

text \<open>
  Claim C2, as stated, asks for a lookup that ignores the letter case of the header name.
  The parser stores each header under the name as sent, and \<open>get\<close> compares names
  exactly: a request that sends \<open>host\<close> has no entry under \<open>Host\<close>.
\<close>

theorem headers_case_sensitive_counterexample:
  "parsed_header (''GET / HTTP/1.1'' @ CRLF @ ''host: example'' @ CRLF @ CRLF) ''host'' = Some (Some ''example'')
   \<and> parsed_header (''GET / HTTP/1.1'' @ CRLF @ ''host: example'' @ CRLF @ CRLF) ''Host'' = Some None"
  by (simp add: parse_eval)

text \<open>
  Claim C2, amended. For every buffer that parses, the header mapping is keyed by the
  stripped header name exactly as sent (letter case included): a name borne by no
  colon-bearing header line has no entry, and a name borne by several lines maps to the
  stripped value of the last of them.
\<close>

theorem headers_exact_name_last_wins:
  assumes "parse_http_request raw = Inr (Some r)"
    and "fs = header_fields (tl (split_on CRLF (head_of raw)))"
  shows "(name \<notin> fst ` set fs \<longrightarrow> req_headers r name = None)
       \<and> (\<forall>xs v ys. fs = xs @ (name, v) # ys \<and> name \<notin> fst ` set ys \<longrightarrow> req_headers r name = Some v)"
proof -
  from assms have h: "req_headers r = map_of (rev fs)"
    by (simp add: req_headers_of_parse)
  show ?thesis
  proof (intro conjI impI allI)
    assume "name \<notin> fst ` set fs"
    then show "req_headers r name = None" by (simp add: h map_of_eq_None_iff)
  next
    fix xs v ys
    assume "fs = xs @ (name, v) # ys \<and> name \<notin> fst ` set ys"
    then show "req_headers r name = Some v" using map_of_rev_last[of fs xs name v ys] h by simp
  qed
qed

theorem headers_exact_name_last_wins_witness:
  "header_fields (tl (split_on CRLF (head_of
       (''GET / HTTP/1.1'' @ CRLF @ ''X-A: 1'' @ CRLF @ ''X-A: 2'' @ CRLF @ CRLF))))
     = [(''X-A'', ''1''), (''X-A'', ''2'')]
   \<and> parsed_header (''GET / HTTP/1.1'' @ CRLF @ ''X-A: 1'' @ CRLF @ ''X-A: 2'' @ CRLF @ CRLF) ''X-A''
       = Some (Some ''2'')
   \<and> parsed_header (''GET / HTTP/1.1'' @ CRLF @ ''X-A: 1'' @ CRLF @ ''X-A: 2'' @ CRLF @ CRLF) ''x-a''
       = Some None"
proof -
  let ?raw = "''GET / HTTP/1.1'' @ CRLF @ ''X-A: 1'' @ CRLF @ ''X-A: 2'' @ CRLF @ CRLF"
  let ?fs = "[(''X-A'', ''1''), (''X-A'', ''2'')]"
  have fs: "?fs = header_fields (tl (split_on CRLF (head_of ?raw)))"
    by (simp add: CRLF_def head_of_def header_fields_def py_strip_def py_isspace_def)
  have "\<exists>r. parse_http_request ?raw = Inr (Some r)"
    by (simp add: parse_eval)
  then obtain r where r: "parse_http_request ?raw = Inr (Some r)" by blast
  note w = headers_exact_name_last_wins[OF r fs]
  have "req_headers r ''X-A'' = Some ''2''"
    using w[of "''X-A''", THEN conjunct2, rule_format, of "[(''X-A'', ''1'')]" "''2''" "[]"] by simp
  then have a: "parsed_header ?raw ''X-A'' = Some (Some ''2'')"
    unfolding parsed_header_def r by (simp only: sum.case option.case)
  have "req_headers r ''x-a'' = None"
    using w[of "''x-a''", THEN conjunct1] by simp
  then have b: "parsed_header ?raw ''x-a'' = Some None"
    unfolding parsed_header_def r by (simp only: sum.case option.case)
  from fs a b show ?thesis by (simp only: simp_thms)
qed

section \<open>Claim C4: the keep-alive decision\<close>









lemma demo_env_sel:
  "BASE_DIR demo_env = ''/srv/app''" "SERVER_HOST demo_env = ''127.0.0.1''"
  "SERVER_PORT demo_env = 8080" "date demo_env = ''Wed, 04 Nov 2026 07:26:05 GMT''"
  "unquote demo_env = pct_decode"
  "urlparse_path demo_env t = Some (takeWhile (\<lambda>c. c \<noteq> CHR ''?'' \<and> c \<noteq> CHR ''#'') t)"
  "loads_utf8 demo_env b = (if b = doc_compact \<or> b = doc_indented then Some doc_value
                             else if b = deep_doc then Some deep_value else None)"
  "dump_utf8 demo_env v = (if v = doc_value then Complete doc_indented
                            else if v = deep_value then Broken deep_written else Broken [])"
  "now demo_env = \<lparr>year = 2026, month = 11, day = 4, hour = 7, minute = 26, second = 5\<rparr>"
  "draw demo_env i = 17 * i + 10"
  by (simp_all add: demo_env_def)





section \<open>Claim C1: the path resolver\<close>

lemma demo_fs_sel:
  "realpath demo_fs p = (if CHR 0x00 \<in> set p then None
                      else if prefix ''/srv/app/resources/pub/'' p
                      then Some (''/srv/app/resources_old/'' @ drop 23 p)
                      else Some p)"
  "writable demo_fs p = prefix ''/srv/app/resources/uploads/'' p"
  by (simp_all add: demo_fs_def)

lemma demo_dirs:
  "RESOURCE_DIR demo_env = ''/srv/app/resources''"
  "UPLOADS_DIR demo_env = ''/srv/app/resources/uploads''"
  by (simp_all add: UPLOADS_DIR_def RESOURCE_DIR_def path_join_def demo_env_sel)

lemma safe_join_resources_string_prefix:
  assumes "safe_join_resources e fs path = Inr (Some p)"
  shows "\<exists>root. realpath fs (RESOURCE_DIR e) = Some root \<and> prefix root p"
  using assms
  by (auto simp: safe_join_resources_def Let_def split: if_splits option.splits)

lemma safe_join_resources_rejects:
  assumes "urlparse_path e path = Some parsed"
    and "py_in ''..'' (unquote e parsed) \<or> prefix ''//'' (unquote e parsed)"
  shows "safe_join_resources e fs path = Inr None"
  using assms by (auto simp: safe_join_resources_def Let_def)

lemma safe_join_resources_index:
  assumes "path \<noteq> []" "urlparse_path e path = Some parsed"
    and "unquote e parsed = [] \<or> unquote e parsed = ''/''"
    and "realpath fs (path_join (RESOURCE_DIR e) ''index.html'') = Some p"
    and "realpath fs (RESOURCE_DIR e) = Some root" "prefix root p"
  shows "safe_join_resources e fs path = Inr (Some p)"
  using assms by (auto simp: safe_join_resources_def Let_def)

text \<open>
  Claim C1 asks that the canonical form of every returned path has the canonical
  resource root as a directory prefix. The resolver compares the two canonical paths
  with \<open>str.startswith\<close>, which is a prefix of characters: what it returns starts with
  the characters of the root (\<open>safe_join_resources_string_prefix\<close>). In the example
  tree the link \<open>pub\<close> leads to the sibling directory \<open>/srv/app/resources_old\<close>, whose
  name starts with the name of the root, and the target \<open>/pub/notes.html\<close> is resolved
  to a file outside the root. The other two parts of the claim hold
  (\<open>safe_join_resources_rejects\<close>, \<open>safe_join_resources_index\<close>).
\<close>

theorem safe_join_resources_leaves_root:
  "safe_join_resources demo_env demo_fs ''/pub/notes.html''
      = Inr (Some ''/srv/app/resources_old/notes.html'')
   \<and> realpath demo_fs (RESOURCE_DIR demo_env) = Some ''/srv/app/resources''
   \<and> realpath demo_fs ''/srv/app/resources_old/notes.html''
      = Some ''/srv/app/resources_old/notes.html''
   \<and> prefix ''/srv/app/resources'' ''/srv/app/resources_old/notes.html''
   \<and> \<not> dir_prefix ''/srv/app/resources'' ''/srv/app/resources_old/notes.html''"
  by (simp add: safe_join_resources_def demo_env_sel demo_fs_sel demo_dirs path_join_def
        dir_prefix_def path_parts_def)

section \<open>Claim C5: the file responder\<close>

lemma sendall_alive:
  "\<not> peer_gone s \<Longrightarrow> \<not> closed s \<Longrightarrow> sendall x s = Some (s\<lparr>sent := sent s @ [x]\<rparr>)"
  by (simp add: sendall_def)

lemma sendall_gone: "peer_gone s \<Longrightarrow> sendall x s = None"
  by (simp add: sendall_def)

lemma send_error_alive:
  "\<not> peer_gone s \<Longrightarrow> \<not> closed s \<Longrightarrow>
     send_error d s code reason None None = s\<lparr>sent := sent s @ [error_response d code reason]\<rparr>"
  by (simp add: send_error_def error_response_def sendall_alive)

lemma send_error_gone: "peer_gone s \<Longrightarrow> send_error d s code reason None None = s"
  by (simp add: send_error_def sendall_gone)

lemma send_chunks_alive:
  "\<not> peer_gone s \<Longrightarrow> \<not> closed s \<Longrightarrow> send_chunks cs s = Some (s\<lparr>sent := sent s @ cs\<rparr>)"
proof (induction cs arbitrary: s)
  case Nil
  then show ?case by simp
next
  case (Cons c cs)
  let ?s = "s\<lparr>sent := sent s @ [c]\<rparr>"
  have "send_chunks cs ?s = Some (?s\<lparr>sent := sent ?s @ cs\<rparr>)"
    using Cons.prems by (intro Cons.IH) simp_all
  with Cons.prems show ?case by (simp add: sendall_alive)
qed

lemma concat_chunks: "0 < n \<Longrightarrow> concat (chunks n xs) = xs"
proof (induction n xs rule: chunks.induct)
  case (1 n xs)
  show ?case
  proof (cases "xs = []")
    case True
    then show ?thesis by (simp add: chunks.simps[of n "[]"])
  next
    case False
    with "1.prems" have "concat (chunks n (drop n xs)) = drop n xs" by (intro "1.IH") simp_all
    with False "1.prems" show ?thesis by (simp add: chunks.simps[of n xs])
  qed
qed

lemma map_of_setdefault:
  "map_of (setdefault k v d) k' =
     (case map_of d k' of Some x \<Rightarrow> Some x | None \<Rightarrow> if k' = k then Some v else None)"
  by (auto simp: setdefault_def map_add_def split: option.splits)

lemma response_headers_keeps:
  "map_of hs k = Some v \<Longrightarrow> map_of (response_headers d hs body) k = Some v"
  by (simp add: response_headers_def map_of_setdefault)

lemma html_headers_lookup:
  "map_of (html_headers content ka) ''Content-Type'' = Some ''text/html; charset=utf-8''"
  "map_of (html_headers content ka) ''Content-Length'' = Some (str_nat (length content))"
  by (simp_all add: html_headers_def)

lemma binary_headers_lookup:
  "map_of (binary_headers n name ka) ''Content-Type'' = Some ''application/octet-stream''"
  "map_of (binary_headers n name ka) ''Content-Length'' = Some (str_nat n)"
  \<open>map_of (binary_headers n name ka) ''Content-Disposition''
     = Some (''attachment; filename="'' @ name @ ''"'')\<close>
  by (simp_all add: binary_headers_def)

lemma handle_get_not_found:
  assumes "\<not> peer_gone s" "\<not> closed s"
    and "safe_join_resources e fs path = Inr None
         \<or> (\<exists>p. safe_join_resources e fs path = Inr (Some p)
                \<and> (node fs p = None \<or> node fs p = Some Directory))"
  shows "handle_get e fs s path ka
           = Inr (s\<lparr>sent := sent s @ [error_response (date e) 404 ''Not Found'']\<rparr>)"
  using assms by (auto simp: handle_get_def send_error_alive)

lemma handle_get_html:
  assumes "\<not> peer_gone s" "\<not> closed s"
    and "safe_join_resources e fs path = Inr (Some p)"
    and "node fs p = Some (Regular content True)"
    and "py_lower (splitext_ext p) = ''.html''"
  shows "handle_get e fs s path ka
           = Inr (s\<lparr>sent := sent s @ [make_response (date e) 200 ''OK''
                                          (html_headers content ka) content]\<rparr>)"
  using assms by (simp add: handle_get_def sendall_alive)

lemma handle_get_html_unreadable:
  assumes "\<not> peer_gone s" "\<not> closed s"
    and "safe_join_resources e fs path = Inr (Some p)"
    and "node fs p = Some (Regular content False)"
    and "py_lower (splitext_ext p) = ''.html''"
  shows "handle_get e fs s path ka
           = Inr (s\<lparr>sent := sent s @ [error_response (date e) 500 ''Internal Server Error'']\<rparr>)"
  using assms by (simp add: handle_get_def send_error_alive)

lemma handle_get_binary:
  assumes "\<not> peer_gone s" "\<not> closed s"
    and "safe_join_resources e fs path = Inr (Some p)"
    and "node fs p = Some (Regular content True)"
    and "py_lower (splitext_ext p) \<in> {''.txt'', ''.png'', ''.jpg'', ''.jpeg''}"
  shows "handle_get e fs s path ka
           = Inr (s\<lparr>sent := sent s @ make_response (date e) 200 ''OK''
                      (binary_headers (length content) (basename p) ka) []
                    # chunks FILE_READ_CHUNK content\<rparr>)"
proof -
  let ?head = "make_response (date e) 200 ''OK'' (binary_headers (length content) (basename p) ka) []"
  let ?s1 = "s\<lparr>sent := sent s @ [?head]\<rparr>"
  have ext: "py_lower (splitext_ext p) \<noteq> ''.html''" "py_lower (splitext_ext p) \<in> SUPPORTED_BINARY"
    using assms(5) by (auto simp: SUPPORTED_BINARY_def)
  have "send_chunks (chunks FILE_READ_CHUNK content) ?s1
          = Some (?s1\<lparr>sent := sent ?s1 @ chunks FILE_READ_CHUNK content\<rparr>)"
    using assms(1,2) by (intro send_chunks_alive) simp_all
  then show ?thesis
    using assms(1-4) ext by (simp add: handle_get_def sendall_alive)
qed

lemma handle_get_unsupported:
  assumes "\<not> peer_gone s" "\<not> closed s"
    and "safe_join_resources e fs path = Inr (Some p)"
    and "node fs p = Some (Regular content r)"
    and "py_lower (splitext_ext p) \<notin> {''.html'', ''.txt'', ''.png'', ''.jpg'', ''.jpeg''}"
  shows "handle_get e fs s path ka
           = Inr (s\<lparr>sent := sent s @ [error_response (date e) 415 ''Unsupported Media Type'']\<rparr>)"
  using assms by (simp add: handle_get_def send_error_alive SUPPORTED_BINARY_def)

lemmas path_eval = safe_join_resources_def demo_env_sel demo_fs_sel demo_dirs path_join_def
  char_of_def bit_Suc_0_iff

lemmas ext_eval = splitext_ext_def basename_def py_lower_def char_lower_def is_upper_def

lemma demo_paths:
  "safe_join_resources demo_env demo_fs ''/'' = Inr (Some ''/srv/app/resources/index.html'')"
  "safe_join_resources demo_env demo_fs ''/logo.png'' = Inr (Some ''/srv/app/resources/logo.png'')"
  "safe_join_resources demo_env demo_fs ''/notes.md'' = Inr (Some ''/srv/app/resources/notes.md'')"
  "safe_join_resources demo_env demo_fs ''/private.html''
     = Inr (Some ''/srv/app/resources/private.html'')"
  "safe_join_resources demo_env demo_fs ''/uploads'' = Inr (Some ''/srv/app/resources/uploads'')"
  "safe_join_resources demo_env demo_fs ''/../etc/passwd'' = Inr None"
  by (simp_all add: path_eval)

lemma demo_nodes:
  "node demo_fs ''/srv/app/resources/index.html'' = Some (Regular (''hello world'' @ [CHR 0x0A]) True)"
  "node demo_fs ''/srv/app/resources/logo.png'' = Some (Regular (replicate 2048 (CHR 0x00)) True)"
  "node demo_fs ''/srv/app/resources/notes.md'' = Some (Regular ''notes'' True)"
  "node demo_fs ''/srv/app/resources/private.html'' = Some (Regular ''secret'' False)"
  "node demo_fs ''/srv/app/resources/uploads'' = Some Directory"
  by (simp_all add: demo_fs_def)

lemma demo_exts:
  "py_lower (splitext_ext ''/srv/app/resources/index.html'') = ''.html''"
  "py_lower (splitext_ext ''/srv/app/resources/logo.png'') = ''.png''"
  "py_lower (splitext_ext ''/srv/app/resources/notes.md'') = ''.md''"
  "py_lower (splitext_ext ''/srv/app/resources/private.html'') = ''.html''"
  by (simp_all add: ext_eval)

lemma fresh_sock_alive: "\<not> peer_gone (fresh_sock evs)" "\<not> closed (fresh_sock evs)"
  "sent (fresh_sock evs) = []" "inbox (fresh_sock evs) = evs"
  by (simp_all add: fresh_sock_def)

text \<open>
  Claim C5, as stated, promises 200 for every existing regular file with a served
  extension. The responder opens the file inside a \<open>try\<close> whose handler answers 500:
  \<open>private.html\<close> exists, is a regular file and ends in \<open>.html\<close>, but may not be opened,
  and the response is 500.
\<close>

theorem handle_get_unreadable_counterexample:
  "safe_join_resources demo_env demo_fs ''/private.html''
     = Inr (Some ''/srv/app/resources/private.html'')
   \<and> node demo_fs ''/srv/app/resources/private.html'' = Some (Regular ''secret'' False)
   \<and> py_lower (splitext_ext ''/srv/app/resources/private.html'') = ''.html''
   \<and> handle_get demo_env demo_fs (fresh_sock []) ''/private.html'' True
     = Inr ((fresh_sock [])\<lparr>sent := [error_response (date demo_env) 500 ''Internal Server Error'']\<rparr>)"
  using handle_get_html_unreadable[OF fresh_sock_alive(1,2) demo_paths(4) demo_nodes(4) demo_exts(4),
          of "[]" True]
  by (simp add: demo_paths demo_nodes demo_exts fresh_sock_alive)

text \<open>
  Claim C5, amended. On a connection whose peer is still there, a GET is answered 404
  when the resolver returns no path or the resolved path names nothing or no regular
  file. For a regular file that can be opened: with the lower-cased extension \<open>.html\<close>
  the response is 200 with Content-Type \<open>text/html; charset=utf-8\<close> and Content-Length
  the number of bytes of the file, which are the body; with one of \<open>.txt\<close>, \<open>.png\<close>,
  \<open>.jpg\<close>, \<open>.jpeg\<close> it is a 200 head with Content-Type \<open>application/octet-stream\<close>,
  Content-Length the size of the file and a Content-Disposition attachment header with
  the base name, followed by the bytes of the file in chunks. Any other extension gives
  415, and an \<open>.html\<close> file that cannot be opened gives 500.
\<close>

theorem handle_get_statuses:
  assumes "\<not> peer_gone s" and "\<not> closed s"
  shows
  "(safe_join_resources e fs path = Inr None
      \<or> (\<exists>q. safe_join_resources e fs path = Inr (Some q)
             \<and> (node fs q = None \<or> node fs q = Some Directory))
     \<longrightarrow> handle_get e fs s path ka
           = Inr (s\<lparr>sent := sent s @ [error_response (date e) 404 ''Not Found'']\<rparr>))
   \<and> (safe_join_resources e fs path = Inr (Some p) \<and> node fs p = Some (Regular content True)
       \<and> py_lower (splitext_ext p) = ''.html''
     \<longrightarrow> handle_get e fs s path ka
           = Inr (s\<lparr>sent := sent s @ [make_response (date e) 200 ''OK''
                                          (html_headers content ka) content]\<rparr>)
         \<and> map_of (response_headers (date e) (html_headers content ka) content) ''Content-Type''
           = Some ''text/html; charset=utf-8''
         \<and> map_of (response_headers (date e) (html_headers content ka) content) ''Content-Length''
           = Some (str_nat (length content)))
   \<and> (safe_join_resources e fs path = Inr (Some p) \<and> node fs p = Some (Regular content True)
       \<and> py_lower (splitext_ext p) \<in> {''.txt'', ''.png'', ''.jpg'', ''.jpeg''}
     \<longrightarrow> handle_get e fs s path ka
           = Inr (s\<lparr>sent := sent s @ make_response (date e) 200 ''OK''
                      (binary_headers (length content) (basename p) ka) []
                    # chunks FILE_READ_CHUNK content\<rparr>)
         \<and> concat (chunks FILE_READ_CHUNK content) = content
         \<and> map_of (response_headers (date e) (binary_headers (length content) (basename p) ka) [])
              ''Content-Type'' = Some ''application/octet-stream''
         \<and> map_of (response_headers (date e) (binary_headers (length content) (basename p) ka) [])
              ''Content-Length'' = Some (str_nat (length content))
         \<and> map_of (response_headers (date e) (binary_headers (length content) (basename p) ka) [])
              ''Content-Disposition'' = Some (''attachment; filename='' @ [CHR 0x22] @ basename p @ [CHR 0x22]))
   \<and> (safe_join_resources e fs path = Inr (Some p) \<and> node fs p = Some (Regular content r)
       \<and> py_lower (splitext_ext p) \<notin> {''.html'', ''.txt'', ''.png'', ''.jpg'', ''.jpeg''}
     \<longrightarrow> handle_get e fs s path ka
           = Inr (s\<lparr>sent := sent s @ [error_response (date e) 415 ''Unsupported Media Type'']\<rparr>))
   \<and> (safe_join_resources e fs path = Inr (Some p) \<and> node fs p = Some (Regular content False)
       \<and> py_lower (splitext_ext p) = ''.html''
     \<longrightarrow> handle_get e fs s path ka
           = Inr (s\<lparr>sent := sent s @ [error_response (date e) 500 ''Internal Server Error'']\<rparr>))"
proof (intro conjI impI)
  assume "safe_join_resources e fs path = Inr None
      \<or> (\<exists>q. safe_join_resources e fs path = Inr (Some q)
             \<and> (node fs q = None \<or> node fs q = Some Directory))"
  then show "handle_get e fs s path ka
           = Inr (s\<lparr>sent := sent s @ [error_response (date e) 404 ''Not Found'']\<rparr>)"
    by (rule handle_get_not_found[OF assms])
next
  assume a: "safe_join_resources e fs path = Inr (Some p) \<and> node fs p = Some (Regular content True)
       \<and> py_lower (splitext_ext p) = ''.html''"
  then show "handle_get e fs s path ka
           = Inr (s\<lparr>sent := sent s @ [make_response (date e) 200 ''OK''
                                          (html_headers content ka) content]\<rparr>)"
    using handle_get_html[OF assms, of e fs path p content ka] by blast
  show "map_of (response_headers (date e) (html_headers content ka) content) ''Content-Type''
           = Some ''text/html; charset=utf-8''"
    by (rule response_headers_keeps) (rule html_headers_lookup)
  show "map_of (response_headers (date e) (html_headers content ka) content) ''Content-Length''
           = Some (str_nat (length content))"
    by (rule response_headers_keeps) (rule html_headers_lookup)
next
  assume a: "safe_join_resources e fs path = Inr (Some p) \<and> node fs p = Some (Regular content True)
       \<and> py_lower (splitext_ext p) \<in> {''.txt'', ''.png'', ''.jpg'', ''.jpeg''}"
  then show "handle_get e fs s path ka
           = Inr (s\<lparr>sent := sent s @ make_response (date e) 200 ''OK''
                      (binary_headers (length content) (basename p) ka) []
                    # chunks FILE_READ_CHUNK content\<rparr>)"
    using handle_get_binary[OF assms, of e fs path p content ka] by blast
  show "concat (chunks FILE_READ_CHUNK content) = content"
    by (rule concat_chunks) (simp add: FILE_READ_CHUNK_def)
  show "map_of (response_headers (date e) (binary_headers (length content) (basename p) ka) [])
              ''Content-Type'' = Some ''application/octet-stream''"
    by (rule response_headers_keeps) (rule binary_headers_lookup)
  show "map_of (response_headers (date e) (binary_headers (length content) (basename p) ka) [])
              ''Content-Length'' = Some (str_nat (length content))"
    by (rule response_headers_keeps) (rule binary_headers_lookup)
  show "map_of (response_headers (date e) (binary_headers (length content) (basename p) ka) [])
              ''Content-Disposition'' = Some (''attachment; filename='' @ [CHR 0x22] @ basename p @ [CHR 0x22])"
    by (rule response_headers_keeps) (simp add: binary_headers_lookup)
next
  assume "safe_join_resources e fs path = Inr (Some p) \<and> node fs p = Some (Regular content r)
       \<and> py_lower (splitext_ext p) \<notin> {''.html'', ''.txt'', ''.png'', ''.jpg'', ''.jpeg''}"
  then show "handle_get e fs s path ka
           = Inr (s\<lparr>sent := sent s @ [error_response (date e) 415 ''Unsupported Media Type'']\<rparr>)"
    using handle_get_unsupported[OF assms, of e fs path p content r ka] by blast
next
  assume "safe_join_resources e fs path = Inr (Some p) \<and> node fs p = Some (Regular content False)
       \<and> py_lower (splitext_ext p) = ''.html''"
  then show "handle_get e fs s path ka
           = Inr (s\<lparr>sent := sent s @ [error_response (date e) 500 ''Internal Server Error'']\<rparr>)"
    using handle_get_html_unreadable[OF assms, of e fs path p content ka] by blast
qed

theorem handle_get_statuses_witness:
  "safe_join_resources demo_env demo_fs ''/../etc/passwd'' = Inr None
   \<and> handle_get demo_env demo_fs (fresh_sock []) ''/../etc/passwd'' True
       = Inr ((fresh_sock [])\<lparr>sent := [error_response (date demo_env) 404 ''Not Found'']\<rparr>)
   \<and> (safe_join_resources demo_env demo_fs ''/'' = Inr (Some ''/srv/app/resources/index.html'')
       \<and> node demo_fs ''/srv/app/resources/index.html''
           = Some (Regular (''hello world'' @ [CHR 0x0A]) True)
       \<and> py_lower (splitext_ext ''/srv/app/resources/index.html'') = ''.html'')
   \<and> handle_get demo_env demo_fs (fresh_sock []) ''/'' True
       = Inr ((fresh_sock [])\<lparr>sent := [make_response (date demo_env) 200 ''OK''
                (html_headers (''hello world'' @ [CHR 0x0A]) True) (''hello world'' @ [CHR 0x0A])]\<rparr>)
   \<and> map_of (response_headers (date demo_env) (html_headers (''hello world'' @ [CHR 0x0A]) True)
               (''hello world'' @ [CHR 0x0A])) ''Content-Length'' = Some ''12''
   \<and> (safe_join_resources demo_env demo_fs ''/logo.png'' = Inr (Some ''/srv/app/resources/logo.png'')
       \<and> node demo_fs ''/srv/app/resources/logo.png'' = Some (Regular (replicate 2048 (CHR 0x00)) True)
       \<and> py_lower (splitext_ext ''/srv/app/resources/logo.png'') \<in> {''.txt'', ''.png'', ''.jpg'', ''.jpeg''})
   \<and> handle_get demo_env demo_fs (fresh_sock []) ''/logo.png'' False
       = Inr ((fresh_sock [])\<lparr>sent := make_response (date demo_env) 200 ''OK''
                (binary_headers 2048 ''logo.png'' False) []
              # chunks FILE_READ_CHUNK (replicate 2048 (CHR 0x00))\<rparr>)
   \<and> (safe_join_resources demo_env demo_fs ''/notes.md'' = Inr (Some ''/srv/app/resources/notes.md'')
       \<and> node demo_fs ''/srv/app/resources/notes.md'' = Some (Regular ''notes'' True)
       \<and> py_lower (splitext_ext ''/srv/app/resources/notes.md'')
           \<notin> {''.html'', ''.txt'', ''.png'', ''.jpg'', ''.jpeg''})
   \<and> handle_get demo_env demo_fs (fresh_sock []) ''/notes.md'' True
       = Inr ((fresh_sock [])\<lparr>sent := [error_response (date demo_env) 415 ''Unsupported Media Type'']\<rparr>)
   \<and> (safe_join_resources demo_env demo_fs ''/private.html''
         = Inr (Some ''/srv/app/resources/private.html'')
       \<and> node demo_fs ''/srv/app/resources/private.html'' = Some (Regular ''secret'' False)
       \<and> py_lower (splitext_ext ''/srv/app/resources/private.html'') = ''.html'')
   \<and> handle_get demo_env demo_fs (fresh_sock []) ''/private.html'' True
       = Inr ((fresh_sock [])\<lparr>sent := [error_response (date demo_env) 500 ''Internal Server Error'']\<rparr>)"
proof -
  note w = handle_get_statuses[OF fresh_sock_alive(1,2)[of "[]"], where e=demo_env and fs=demo_fs]
  have h2: "safe_join_resources demo_env demo_fs ''/'' = Inr (Some ''/srv/app/resources/index.html'')
       \<and> node demo_fs ''/srv/app/resources/index.html''
           = Some (Regular (''hello world'' @ [CHR 0x0A]) True)
       \<and> py_lower (splitext_ext ''/srv/app/resources/index.html'') = ''.html''"
    by (simp only: demo_paths demo_nodes demo_exts simp_thms)
  have h3: "safe_join_resources demo_env demo_fs ''/logo.png'' = Inr (Some ''/srv/app/resources/logo.png'')
       \<and> node demo_fs ''/srv/app/resources/logo.png'' = Some (Regular (replicate 2048 (CHR 0x00)) True)
       \<and> py_lower (splitext_ext ''/srv/app/resources/logo.png'') \<in> {''.txt'', ''.png'', ''.jpg'', ''.jpeg''}"
    by (simp add: demo_paths demo_nodes demo_exts)
  have h4: "safe_join_resources demo_env demo_fs ''/notes.md'' = Inr (Some ''/srv/app/resources/notes.md'')
       \<and> node demo_fs ''/srv/app/resources/notes.md'' = Some (Regular ''notes'' True)
       \<and> py_lower (splitext_ext ''/srv/app/resources/notes.md'')
           \<notin> {''.html'', ''.txt'', ''.png'', ''.jpg'', ''.jpeg''}"
    by (simp add: demo_paths demo_nodes demo_exts)
  have h5: "safe_join_resources demo_env demo_fs ''/private.html''
         = Inr (Some ''/srv/app/resources/private.html'')
       \<and> node demo_fs ''/srv/app/resources/private.html'' = Some (Regular ''secret'' False)
       \<and> py_lower (splitext_ext ''/srv/app/resources/private.html'') = ''.html''"
    by (simp only: demo_paths demo_nodes demo_exts simp_thms)
  have c1: "handle_get demo_env demo_fs (fresh_sock []) ''/../etc/passwd'' True
       = Inr ((fresh_sock [])\<lparr>sent := [error_response (date demo_env) 404 ''Not Found'']\<rparr>)"
    using w[where path="''/../etc/passwd''" and ka=True, THEN conjunct1] demo_paths(6)
    by (simp add: fresh_sock_alive)
  have c2: "handle_get demo_env demo_fs (fresh_sock []) ''/'' True
       = Inr ((fresh_sock [])\<lparr>sent := [make_response (date demo_env) 200 ''OK''
                (html_headers (''hello world'' @ [CHR 0x0A]) True) (''hello world'' @ [CHR 0x0A])]\<rparr>)"
    and c2': "map_of (response_headers (date demo_env) (html_headers (''hello world'' @ [CHR 0x0A]) True)
               (''hello world'' @ [CHR 0x0A])) ''Content-Length'' = Some ''12''"
    using w[where path="''/''" and ka=True and p="''/srv/app/resources/index.html''"
              and content="''hello world'' @ [CHR 0x0A]", THEN conjunct2, THEN conjunct1, rule_format, OF h2]
    by (simp_all add: fresh_sock_alive str_nat_small str_nat_big digit_char_def)
  have c3: "handle_get demo_env demo_fs (fresh_sock []) ''/logo.png'' False
       = Inr ((fresh_sock [])\<lparr>sent := make_response (date demo_env) 200 ''OK''
                (binary_headers 2048 ''logo.png'' False) []
              # chunks FILE_READ_CHUNK (replicate 2048 (CHR 0x00))\<rparr>)"
    using w[where path="''/logo.png''" and ka=False and p="''/srv/app/resources/logo.png''"
              and content="replicate 2048 (CHR 0x00)",
            THEN conjunct2, THEN conjunct2, THEN conjunct1, rule_format, OF h3]
    by (simp add: fresh_sock_alive basename_def)
  have c4: "handle_get demo_env demo_fs (fresh_sock []) ''/notes.md'' True
       = Inr ((fresh_sock [])\<lparr>sent := [error_response (date demo_env) 415 ''Unsupported Media Type'']\<rparr>)"
    using w[where path="''/notes.md''" and ka=True and p="''/srv/app/resources/notes.md''"
              and content="''notes''" and r=True,
            THEN conjunct2, THEN conjunct2, THEN conjunct2, THEN conjunct1, rule_format, OF h4]
    by (simp add: fresh_sock_alive)
  have c5: "handle_get demo_env demo_fs (fresh_sock []) ''/private.html'' True
       = Inr ((fresh_sock [])\<lparr>sent := [error_response (date demo_env) 500 ''Internal Server Error'']\<rparr>)"
    using w[where path="''/private.html''" and ka=True and p="''/srv/app/resources/private.html''"
              and content="''secret''",
            THEN conjunct2, THEN conjunct2, THEN conjunct2, THEN conjunct2, rule_format, OF h5]
    by (simp add: fresh_sock_alive)
  show ?thesis
    using demo_paths(6) c1 h2 c2 c2' h3 c3 h4 c4 h5 c5 by (intro conjI) (simp_all only: simp_thms)
qed

section \<open>Facts about handle_post\<close>



lemma handle_post_eq:
  "handle_post e fs s headers body ka =
     (if media_type headers \<noteq> ''application/json''
      then Inr (fs, send_error (date e) s 415 ''Unsupported Media Type'' None None)
      else case loads_utf8 e body of
             None \<Rightarrow> Inr (fs, send_error (date e) s 400 ''Bad Request'' None None)
           | Some v \<Rightarrow>
               if \<not> writable fs (upload_path e)
               then Inr (fs, send_error (date e) s 500 ''Internal Server Error'' None None)
               else case dump_utf8 e v of
                      Broken written \<Rightarrow>
                        Inr (fs\<lparr>node := (node fs)(upload_path e \<mapsto> Regular written True)\<rparr>,
                             send_error (date e) s 500 ''Internal Server Error'' None None)
                    | Complete written \<Rightarrow>
                        let fs' = fs\<lparr>node := (node fs)(upload_path e \<mapsto> Regular written True)\<rparr>
                        in case sendall (upload_reply e ka) s of
                             None \<Rightarrow> Inr (fs', send_error (date e) s 500 ''Internal Server Error'' None None)
                           | Some s' \<Rightarrow> Inr (fs', s'))"
proof -
  obtain first rest where sp: "split1 '';'' (case headers ''Content-Type'' of None \<Rightarrow> [] | Some v \<Rightarrow> v) = first # rest"
    using split1_nonempty[of "'';''" "case headers ''Content-Type'' of None \<Rightarrow> [] | Some v \<Rightarrow> v"]
    by (cases "split1 '';'' (case headers ''Content-Type'' of None \<Rightarrow> [] | Some v \<Rightarrow> v)") auto
  then have mt: "media_type headers = py_strip first" by (simp add: media_type_def)
  show ?thesis
    unfolding handle_post_def sp mt
    by (simp add: Let_def upload_path_def upload_reply_def upload_reply_body_def
          split: option.splits dumped.splits)
qed



section \<open>Claim C6: uploads that are turned away\<close>

lemma upt_0_4: "[0..<4] = [0, 1, 2, 3]"
  by (simp add: upt_rec)

lemma demo_filename: "upload_filename demo_env = ''upload_20261104_072605_k1iz.json''"
  by (simp add: upload_filename_def strftime_stamp_def zpad_def str_nat_small str_nat_big
        digit_char_def random_choices_def alphabet_def demo_env_sel upt_0_4)

lemma demo_upload_path:
  "upload_path demo_env = ''/srv/app/resources/uploads/upload_20261104_072605_k1iz.json''"
  by (simp add: upload_path_def demo_filename demo_dirs path_join_def)

lemma demo_writable: "writable demo_fs (upload_path demo_env)"
  by (simp add: demo_upload_path demo_fs_sel)

lemma deep_doc_head: "\<exists>r. deep_doc = CHR ''['' # CHR ''['' # r"
proof -
  have "replicate (Suc (Suc 988)) (CHR ''['') = CHR ''['' # CHR ''['' # replicate 988 (CHR ''['')"
    by (simp only: replicate_Suc)
  moreover have "Suc (Suc 988) = 990" by simp
  ultimately have "replicate 990 (CHR ''['') = CHR ''['' # CHR ''['' # replicate 988 (CHR ''['')"
    by (simp only:)
  then show ?thesis unfolding deep_doc_def by (simp only: append_Cons) blast
qed

lemma demo_loads: "loads_utf8 demo_env doc_compact = Some doc_value"
  "dump_utf8 demo_env doc_value = Complete doc_indented"
  "loads_utf8 demo_env doc_indented = Some doc_value"
  "loads_utf8 demo_env ''hi'' = None"
proof -
  from deep_doc_head obtain r where d: "deep_doc = CHR ''['' # CHR ''['' # r" by blast
  show "loads_utf8 demo_env doc_compact = Some doc_value"
    "loads_utf8 demo_env doc_indented = Some doc_value"
    by (simp_all add: demo_env_sel)
  show "dump_utf8 demo_env doc_value = Complete doc_indented"
    by (simp add: demo_env_sel)
  show "loads_utf8 demo_env ''hi'' = None"
    by (simp add: demo_env_sel d doc_compact_def doc_indented_def)
qed

lemma upload_reply_status_demo: "prefix ''HTTP/1.1 201 Created'' (upload_reply demo_env True)"
  by (simp add: upload_reply_def make_response_def str_int_def str_nat_small str_nat_big digit_char_def
       utf8_encode_def utf8_char_def)

lemma handle_post_created:
  assumes "\<not> peer_gone s" "\<not> closed s"
    and "media_type headers = ''application/json''"
    and "loads_utf8 e body = Some v"
    and "writable fs (upload_path e)"
    and "dump_utf8 e v = Complete written"
  shows "handle_post e fs s headers body ka
           = Inr (fs\<lparr>node := (node fs)(upload_path e \<mapsto> Regular written True)\<rparr>,
                  s\<lparr>sent := sent s @ [upload_reply e ka]\<rparr>)"
  using assms by (simp add: handle_post_eq sendall_alive)


text \<open>
  Claim C6, as stated, compares the text before the first \<open>;\<close> of Content-Type with
  \<open>application/json\<close>. The responder strips that text first: for the value
  \<open>application/json ;charset=utf-8\<close> the text before the \<open>;\<close> ends in a blank and differs
  from \<open>application/json\<close>, yet the upload is stored and answered 201.
\<close>

theorem handle_post_media_type_counterexample:
  "hd (split1 '';'' ''application/json ;charset=utf-8'') \<noteq> ''application/json''
   \<and> handle_post demo_env demo_fs (fresh_sock [])
         [''Content-Type'' \<mapsto> ''application/json ;charset=utf-8''] doc_compact True
       = Inr (demo_fs\<lparr>node := (node demo_fs)(upload_path demo_env \<mapsto> Regular doc_indented True)\<rparr>,
              (fresh_sock [])\<lparr>sent := [upload_reply demo_env True]\<rparr>)
   \<and> prefix ''HTTP/1.1 201 Created'' (upload_reply demo_env True)"
proof -
  have mt: "media_type [''Content-Type'' \<mapsto> ''application/json ;charset=utf-8''] = ''application/json''"
    by (simp add: media_type_def py_strip_def py_isspace_def)
  have "handle_post demo_env demo_fs (fresh_sock [])
         [''Content-Type'' \<mapsto> ''application/json ;charset=utf-8''] doc_compact True
       = Inr (demo_fs\<lparr>node := (node demo_fs)(upload_path demo_env \<mapsto> Regular doc_indented True)\<rparr>,
              (fresh_sock [])\<lparr>sent := [upload_reply demo_env True]\<rparr>)"
    using handle_post_created[OF fresh_sock_alive(1,2) mt demo_loads(1) demo_writable demo_loads(2),
            of "[]" True]
    by (simp add: fresh_sock_alive)
  moreover have "hd (split1 '';'' ''application/json ;charset=utf-8'') \<noteq> ''application/json''"
    by simp
  ultimately show ?thesis using upload_reply_status_demo by (simp only: simp_thms)
qed

text \<open>
  Claim C6, amended. On a connection whose peer is still there: when the text before
  the first \<open>;\<close> of the Content-Type value, stripped of surrounding whitespace, is not
  \<open>application/json\<close> (a missing header counts as empty), the response is 415 and the
  file system is unchanged; when it is \<open>application/json\<close> but the body does not decode
  as UTF-8 and parse as JSON, the response is 400 and the file system is unchanged.
\<close>

theorem handle_post_rejections:
  assumes "\<not> peer_gone s" and "\<not> closed s"
  shows
  "(media_type headers \<noteq> ''application/json''
     \<longrightarrow> handle_post e fs s headers body ka
         = Inr (fs, s\<lparr>sent := sent s @ [error_response (date e) 415 ''Unsupported Media Type'']\<rparr>))
   \<and> (media_type headers = ''application/json'' \<and> loads_utf8 e body = None
     \<longrightarrow> handle_post e fs s headers body ka
         = Inr (fs, s\<lparr>sent := sent s @ [error_response (date e) 400 ''Bad Request'']\<rparr>))"
  using assms by (simp add: handle_post_eq send_error_alive)

theorem handle_post_rejections_witness:
  "media_type [''Content-Type'' \<mapsto> ''text/plain''] \<noteq> ''application/json''
   \<and> handle_post demo_env demo_fs (fresh_sock []) [''Content-Type'' \<mapsto> ''text/plain''] ''hi'' True
       = Inr (demo_fs, (fresh_sock [])\<lparr>sent := [error_response (date demo_env) 415
                                                    ''Unsupported Media Type'']\<rparr>)
   \<and> (media_type [''Content-Type'' \<mapsto> ''application/json; charset=utf-8''] = ''application/json''
       \<and> loads_utf8 demo_env ''hi'' = None)
   \<and> handle_post demo_env demo_fs (fresh_sock [])
         [''Content-Type'' \<mapsto> ''application/json; charset=utf-8''] ''hi'' True
       = Inr (demo_fs, (fresh_sock [])\<lparr>sent := [error_response (date demo_env) 400 ''Bad Request'']\<rparr>)"
proof -
  note w = handle_post_rejections[OF fresh_sock_alive(1,2)[of "[]"], where e=demo_env and fs=demo_fs
             and body="''hi''" and ka=True]
  have h1: "media_type [''Content-Type'' \<mapsto> ''text/plain''] \<noteq> ''application/json''"
    by (simp add: media_type_def py_strip_def py_isspace_def)
  have h2: "media_type [''Content-Type'' \<mapsto> ''application/json; charset=utf-8''] = ''application/json''
       \<and> loads_utf8 demo_env ''hi'' = None"
    by (simp add: media_type_def py_strip_def py_isspace_def demo_loads)
  have c1: "handle_post demo_env demo_fs (fresh_sock []) [''Content-Type'' \<mapsto> ''text/plain''] ''hi'' True
       = Inr (demo_fs, (fresh_sock [])\<lparr>sent := [error_response (date demo_env) 415
                                                    ''Unsupported Media Type'']\<rparr>)"
    using w[where headers="[''Content-Type'' \<mapsto> ''text/plain'']", THEN conjunct1, rule_format, OF h1]
    by (simp add: fresh_sock_alive)
  have c2: "handle_post demo_env demo_fs (fresh_sock [])
         [''Content-Type'' \<mapsto> ''application/json; charset=utf-8''] ''hi'' True
       = Inr (demo_fs, (fresh_sock [])\<lparr>sent := [error_response (date demo_env) 400 ''Bad Request'']\<rparr>)"
    using w[where headers="[''Content-Type'' \<mapsto> ''application/json; charset=utf-8'']",
            THEN conjunct2, rule_format, OF h2]
    by (simp add: fresh_sock_alive)
  from h1 c1 h2 c2 show ?thesis by (intro conjI) (simp_all only: simp_thms)
qed

section \<open>Facts about JSON text\<close>

lemma hex_cases:
  "d < 16 \<Longrightarrow> d = 0 \<or> d = 1 \<or> d = 2 \<or> d = 3 \<or> d = 4 \<or> d = 5 \<or> d = 6 \<or> d = 7 \<or> d = 8 \<or> d = 9
     \<or> d = 10 \<or> d = 11 \<or> d = 12 \<or> d = 13 \<or> d = 14 \<or> d = (15::nat)"
  by arith

lemma hexv_hex_digit: "d < 16 \<Longrightarrow> hex_val (hex_digit d) = Some d"
  using hex_cases[of d] by (auto simp: hex_digit_def)

lemma hex4_value:
  assumes "n < 65536"
  shows "4096 * (n div 4096 mod 16) + 256 * (n div 256 mod 16) + 16 * (n div 16 mod 16) + n mod 16 = (n::nat)"
proof -
  have a: "n div 4096 mod 16 = n div 4096" using assms by (simp add: less_mult_imp_div_less)
  have "n div 256 = n div 16 div 16" "n div 4096 = n div 256 div 16"
    by (simp_all add: div_mult2_eq[symmetric])
  then have b: "n div 16 = 16 * (n div 256) + n div 16 mod 16"
    and c: "n div 256 = 16 * (n div 4096) + n div 256 mod 16"
    by simp_all
  have d: "n = 16 * (n div 16) + n mod 16" by simp
  show ?thesis unfolding a using b c d by linarith
qed

lemma scan_hex4_hex4:
  assumes "n < 65536"
  shows "scan_hex4 (hex4 n @ r) = Some n"
proof -
  have "scan_hex4 (hex4 n @ r)
      = Some (4096 * (n div 4096 mod 16) + 256 * (n div 256 mod 16) + 16 * (n div 16 mod 16) + n mod 16)"
    by (simp add: hex4_def hexv_hex_digit del: hex_val.simps)
  then show ?thesis by (simp only: hex4_value[OF assms])
qed

lemma length_hex4: "length (hex4 n) = 4"
  by (simp add: hex4_def)

lemma esc_ascii_head:
  assumes "c < 1114112"
  shows "(\<exists>x. esc_ascii c = [CHR 0x5C, x] \<and> x \<noteq> CHR ''u'' \<and> unescape x = Some c)
       \<or> (esc_ascii c = [char_of c] \<and> 32 \<le> c \<and> c \<le> 126 \<and> c \<noteq> 34 \<and> c \<noteq> 92)
       \<or> (esc_ascii c = [CHR 0x5C, CHR ''u''] @ hex4 c \<and> c < 65536)
       \<or> (esc_ascii c = [CHR 0x5C, CHR ''u''] @ hex4 (55296 + (c - 65536) div 1024)
                          @ [CHR 0x5C, CHR ''u''] @ hex4 (56320 + (c - 65536) mod 1024)
            \<and> 65536 \<le> c)"
proof -
  have "65536 \<le> c \<Longrightarrow> (c - 65536) div 1024 mod 1024 = (c - 65536) div 1024"
    using assms by (simp add: less_mult_imp_div_less)
  then show ?thesis
    by (auto simp: esc_ascii_def unescape_def)
qed

lemma char_of_eq_iff:
  assumes "c < 256"
  shows "(char_of c = ch) = (c = (of_char ch :: nat))"
proof
  assume "char_of c = ch"
  then have "(of_char (char_of c :: char) :: nat) = of_char ch" by simp
  then show "c = of_char ch" using assms by simp
next
  assume "c = of_char ch"
  then show "char_of c = ch" by simp
qed

lemma scanstring_quote: "scanstring (CHR 0x22 # r) = Some ([], r)"
  by (subst scanstring.simps(2)) simp

lemma scanstring_short:
  "x \<noteq> CHR ''u'' \<Longrightarrow> unescape x = Some ch
     \<Longrightarrow> scanstring (CHR 0x5C # x # r) = consp ch (scanstring r)"
  by (subst scanstring.simps(2)) simp

lemma scanstring_plain:
  "c \<noteq> CHR 0x22 \<Longrightarrow> c \<noteq> CHR 0x5C \<Longrightarrow> 32 \<le> (of_char c :: nat)
     \<Longrightarrow> scanstring (c # r) = consp (of_char c) (scanstring r)"
  by (subst scanstring.simps(2)) simp

lemma scanstring_unit:
  assumes "scan_hex4 r1 = Some uni"
    and "\<not> (55296 \<le> uni \<and> uni \<le> 56319 \<and> take 2 (drop 4 r1) = [CHR 0x5C, CHR ''u''])
         \<or> (\<exists>u2. scan_hex4 (drop 6 r1) = Some u2 \<and> \<not> (56320 \<le> u2 \<and> u2 \<le> 57343))"
  shows "scanstring (CHR 0x5C # CHR ''u'' # r1) = consp uni (scanstring (drop 4 r1))"
proof (cases "55296 \<le> uni \<and> uni \<le> 56319 \<and> take 2 (drop 4 r1) = [CHR 0x5C, CHR ''u'']")
  case True
  with assms(2) obtain u2 where u: "scan_hex4 (drop 6 r1) = Some u2" "\<not> (56320 \<le> u2 \<and> u2 \<le> 57343)"
    by blast
  show ?thesis
    by (subst scanstring.simps(2)) (simp add: assms(1) u True)
next
  case False
  show ?thesis
    by (subst scanstring.simps(2)) (simp add: assms(1) False)
qed

lemma scanstring_pair:
  assumes "scan_hex4 r1 = Some uni" "55296 \<le> uni" "uni \<le> 56319"
    and "take 2 (drop 4 r1) = [CHR 0x5C, CHR ''u'']"
    and "scan_hex4 (drop 6 r1) = Some uni2" "56320 \<le> uni2" "uni2 \<le> 57343"
  shows "scanstring (CHR 0x5C # CHR ''u'' # r1)
         = consp (65536 + ((uni - 55296) * 1024 + (uni2 - 56320))) (scanstring (drop 10 r1))"
  by (subst scanstring.simps(2)) (simp add: assms)

lemma scanstring_step:
  assumes c: "c < 1114112"
    and t: "scanstring t = Some (s', rest)"
    and l: "55296 \<le> c \<and> c \<le> 56319 \<longrightarrow> lone_ok t"
  shows "scanstring (esc_ascii c @ t) = Some (c # s', rest)"
proof -
  consider
    (short) x where "esc_ascii c = [CHR 0x5C, x]" "x \<noteq> CHR ''u''" "unescape x = Some c"
  | (plain) "esc_ascii c = [char_of c]" "32 \<le> c" "c \<le> 126" "c \<noteq> 34" "c \<noteq> 92"
  | (unit) "esc_ascii c = [CHR 0x5C, CHR ''u''] @ hex4 c" "c < 65536"
  | (pair) "esc_ascii c = [CHR 0x5C, CHR ''u''] @ hex4 (55296 + (c - 65536) div 1024)
                          @ [CHR 0x5C, CHR ''u''] @ hex4 (56320 + (c - 65536) mod 1024)"
           "65536 \<le> c"
    using esc_ascii_head[OF c] by blast
  then show ?thesis
  proof cases
    case short
    have "scanstring (CHR 0x5C # x # t) = consp c (scanstring t)"
      by (rule scanstring_short[OF short(2,3)])
    then show ?thesis unfolding short(1) using t by (simp add: consp_def)
  next
    case plain
    then have lt: "c < 256" by simp
    then have p: "char_of c \<noteq> CHR 0x22" "char_of c \<noteq> CHR 0x5C"
      using plain by (simp_all add: char_of_eq_iff)
    have o: "(of_char (char_of c :: char) :: nat) = c" using lt by simp
    have "scanstring (char_of c # t) = consp (of_char (char_of c :: char)) (scanstring t)"
      by (rule scanstring_plain[OF p(1,2)]) (simp only: o plain(2))
    then have "scanstring (char_of c # t) = consp c (scanstring t)" by (simp only: o)
    then show ?thesis unfolding plain(1) using t by (simp add: consp_def)
  next
    case unit
    have h: "scan_hex4 (hex4 c @ t) = Some c" by (rule scan_hex4_hex4[OF unit(2)])
    have d: "drop 4 (hex4 c @ t) = t" "drop 6 (hex4 c @ t) = drop 2 t"
      by (simp_all add: length_hex4)
    have "\<not> (55296 \<le> c \<and> c \<le> 56319 \<and> take 2 (drop 4 (hex4 c @ t)) = [CHR 0x5C, CHR ''u''])
         \<or> (\<exists>u2. scan_hex4 (drop 6 (hex4 c @ t)) = Some u2 \<and> \<not> (56320 \<le> u2 \<and> u2 \<le> 57343))"
      unfolding d using l by (auto simp: lone_ok_def)
    from scanstring_unit[OF h this]
    have "scanstring (CHR 0x5C # CHR ''u'' # hex4 c @ t) = consp c (scanstring t)"
      by (simp only: d)
    then show ?thesis unfolding unit(1) using t by (simp add: consp_def)
  next
    case pair
    let ?q = "(c - 65536) div 1024" and ?m = "(c - 65536) mod 1024"
    let ?hi = "55296 + ?q" and ?lo = "56320 + ?m"
    let ?t2 = "[CHR 0x5C, CHR ''u''] @ hex4 ?lo @ t"
    have q: "?q < 1024" using c pair(2) by (simp add: less_mult_imp_div_less)
    have m: "?m < 1024" by simp
    have hi: "?hi < 65536" "55296 \<le> ?hi" "?hi \<le> 56319" using q by simp_all
    have lo: "?lo < 65536" "56320 \<le> ?lo" "?lo \<le> 57343" using m by simp_all
    have h1: "scan_hex4 (hex4 ?hi @ ?t2) = Some ?hi" by (rule scan_hex4_hex4[OF hi(1)])
    have d1: "take 2 (drop 4 (hex4 ?hi @ ?t2)) = [CHR 0x5C, CHR ''u'']" by (simp add: length_hex4)
    have d2: "drop 6 (hex4 ?hi @ ?t2) = hex4 ?lo @ t" by (simp add: length_hex4)
    have d3: "drop 10 (hex4 ?hi @ ?t2) = t" by (simp add: length_hex4)
    have h2: "scan_hex4 (drop 6 (hex4 ?hi @ ?t2)) = Some ?lo"
      unfolding d2 by (rule scan_hex4_hex4[OF lo(1)])
    have v: "65536 + ((?hi - 55296) * 1024 + (?lo - 56320)) = c"
      using pair(2) by simp
    from scanstring_pair[OF h1 hi(2,3) d1 h2 lo(2,3)]
    have "scanstring (CHR 0x5C # CHR ''u'' # hex4 ?hi @ ?t2) = consp c (scanstring t)"
      by (simp only: v d3)
    then show ?thesis unfolding pair(1) using t by (simp add: consp_def)
  qed
qed

lemma lone_ok_text:
  assumes "py_str s'" and "s' = [] \<or> \<not> (56320 \<le> hd s' \<and> hd s' \<le> 57343)"
  shows "lone_ok (concat (map esc_ascii s') @ CHR 0x22 # rest)"
proof (cases s')
  case Nil
  then show ?thesis by (simp add: lone_ok_def)
next
  case (Cons d r')
  let ?t = "concat (map esc_ascii r') @ CHR 0x22 # rest"
  have d: "d < 1114112" using assms(1) Cons by (cases r') simp_all
  have nl: "\<not> (56320 \<le> d \<and> d \<le> 57343)" using assms(2) Cons by simp
  consider
    (short) x where "esc_ascii d = [CHR 0x5C, x]" "x \<noteq> CHR ''u''"
  | (plain) "esc_ascii d = [char_of d]" "d \<le> 126" "d \<noteq> 92"
  | (unit) "esc_ascii d = [CHR 0x5C, CHR ''u''] @ hex4 d" "d < 65536"
  | (pair) "esc_ascii d = [CHR 0x5C, CHR ''u''] @ hex4 (55296 + (d - 65536) div 1024)
                          @ [CHR 0x5C, CHR ''u''] @ hex4 (56320 + (d - 65536) mod 1024)"
           "65536 \<le> d"
    using esc_ascii_head[OF d] by blast
  then show ?thesis
  proof cases
    case short
    then show ?thesis unfolding Cons by (simp add: lone_ok_def)
  next
    case plain
    then have "char_of d \<noteq> CHR 0x5C" by (simp add: char_of_eq_iff)
    with plain show ?thesis unfolding Cons by (simp add: lone_ok_def)
  next
    case unit
    have "scan_hex4 (hex4 d @ ?t) = Some d" by (rule scan_hex4_hex4[OF unit(2)])
    with nl show ?thesis unfolding Cons by (simp add: lone_ok_def unit(1))
  next
    case pair
    let ?hi = "55296 + (d - 65536) div 1024"
    let ?t2 = "[CHR 0x5C, CHR ''u''] @ hex4 (56320 + (d - 65536) mod 1024) @ ?t"
    have q: "(d - 65536) div 1024 < 1024" using d pair(2) by (simp add: less_mult_imp_div_less)
    then have hi: "?hi < 65536" "\<not> (56320 \<le> ?hi \<and> ?hi \<le> 57343)" by simp_all
    have "scan_hex4 (hex4 ?hi @ ?t2) = Some ?hi" by (rule scan_hex4_hex4[OF hi(1)])
    with hi(2) show ?thesis unfolding Cons by (simp add: lone_ok_def pair(1))
  qed
qed

lemma scanstring_encode:
  "py_str s \<Longrightarrow> scanstring (concat (map esc_ascii s) @ CHR 0x22 # rest) = Some (s, rest)"
proof (induction s rule: py_str.induct)
  case 1
  show ?case by (simp add: scanstring_quote)
next
  case (2 c)
  have "scanstring (esc_ascii c @ CHR 0x22 # rest) = Some ([c], rest)"
  proof (rule scanstring_step)
    show "c < 1114112" using 2 by simp
    show "scanstring (CHR 0x22 # rest) = Some ([], rest)" by (rule scanstring_quote)
    show "55296 \<le> c \<and> c \<le> 56319 \<longrightarrow> lone_ok (CHR 0x22 # rest)"
      using lone_ok_text[of "[]" rest] by simp
  qed
  then show ?case by simp
next
  case (3 c d r)
  let ?t = "concat (map esc_ascii (d # r)) @ CHR 0x22 # rest"
  have "scanstring (esc_ascii c @ ?t) = Some (c # d # r, rest)"
  proof (rule scanstring_step)
    show "c < 1114112" using "3.prems" by simp
    show "scanstring ?t = Some (d # r, rest)" using 3 by simp
    show "55296 \<le> c \<and> c \<le> 56319 \<longrightarrow> lone_ok ?t"
    proof
      assume "55296 \<le> c \<and> c \<le> 56319"
      with "3.prems" have "\<not> (56320 \<le> d \<and> d \<le> 57343)" "py_str (d # r)" by auto
      then show "lone_ok ?t" using lone_ok_text[of "d # r" rest] by simp
    qed
  qed
  then show ?case by simp
qed

lemma takeWhile_digits:
  assumes "\<forall>c\<in>set ds. is_digit c" and "rest = [] \<or> \<not> is_digit (hd rest)"
  shows "takeWhile is_digit (ds @ rest) = ds"
proof -
  have "takeWhile is_digit rest = []" using assms(2) by (cases rest) auto
  then show ?thesis using assms(1) by (simp add: takeWhile_append2)
qed

lemma str_nat_hd: "0 < n \<Longrightarrow> hd (str_nat n) \<noteq> CHR ''0''"
proof (induction n rule: str_nat.induct)
  case (1 n)
  show ?case
  proof (cases "n < 10")
    case True
    with "1.prems" show ?thesis
      using digit_char_cases[of n] by (auto simp: str_nat_small digit_char_def)
  next
    case False
    then have "0 < n div 10" by simp
    then have "hd (str_nat (n div 10)) \<noteq> CHR ''0''" using "1.IH"[OF False] by simp
    then show ?thesis using str_nat_nonempty[of "n div 10"] by (simp add: str_nat_big[OF False])
  qed
qed

lemma str_nat_zero: "str_nat 0 = ''0''"
  by (simp add: str_nat_small digit_char_def)

lemma int_part_str_nat:
  assumes "rest = [] \<or> \<not> is_digit (hd rest)"
  shows "int_part (str_nat m @ rest) = str_nat m"
proof (cases "m = 0")
  case True
  then show ?thesis by (simp add: str_nat_zero int_part_def)
next
  case False
  obtain c ds where s: "str_nat m = c # ds" using str_nat_nonempty[of m] by (cases "str_nat m") auto
  have c: "c \<noteq> CHR ''0''" using str_nat_hd[of m] False s by simp
  have d: "is_digit c" "\<forall>x\<in>set ds. is_digit x" using str_nat_digits[of _ m] s by auto
  show ?thesis unfolding s using c d takeWhile_digits[OF d(2) assms] by (simp add: int_part_def)
qed

lemma follow_facts:
  assumes "follow rest"
  shows "rest = [] \<or> \<not> is_digit (hd rest)" "frac_part rest = []" "exp_part rest = []"
  using assms by (auto simp: follow_def frac_part_def exp_part_def is_digit_def split: list.splits)

lemma str_nat_no_minus: "hd (str_nat m) \<noteq> CHR ''-''"
proof -
  have "is_digit (hd (str_nat m))" using str_nat_digits[of "hd (str_nat m)" m] str_nat_nonempty[of m] by simp
  then show ?thesis by (auto simp: is_digit_def)
qed

lemma parse_number_int:
  assumes f: "follow rest" and l: "length (str_nat (nat \<bar>n\<bar>)) \<le> max_str_digits"
  shows "parse_number fl (str_int n @ rest) = Some (JInt n, rest)"
proof -
  note ff = follow_facts[OF f]
  have p: "py_int (str_int n) = Some n" by (rule py_int_str_int[OF l])
  show ?thesis
  proof (cases "n < 0")
    case False
    let ?m = "nat n"
    have s: "str_int n = str_nat ?m" using False by (simp add: str_int_def)
    have h: "str_nat ?m @ rest \<noteq> []" "hd (str_nat ?m @ rest) \<noteq> CHR ''-''"
      using str_nat_nonempty[of ?m] str_nat_no_minus[of ?m] by simp_all
    show ?thesis
      unfolding parse_number_def s using h p[unfolded s] ff
      by (simp add: Let_def int_part_str_nat str_nat_nonempty)
  next
    case True
    let ?m = "nat (- n)"
    have s: "str_int n = CHR ''-'' # str_nat ?m" using True by (simp add: str_int_def)
    show ?thesis
      unfolding parse_number_def s using p[unfolded s] ff
      by (simp add: Let_def int_part_str_nat str_nat_nonempty)
  qed
qed

lemma skip_ws_indent: "skip_ws (newline_indent level @ t) = skip_ws t"
  by (simp add: skip_ws_def newline_indent_def json_ws_def dropWhile_append)

lemma skip_ws_keep: "t = [] \<or> \<not> json_ws (hd t) \<Longrightarrow> skip_ws t = t"
  by (cases t) (auto simp: skip_ws_def)

lemma opener_facts: "opener c \<Longrightarrow> \<not> json_ws c \<and> c \<noteq> CHR '']'' \<and> c \<noteq> CHR ''}''"
  by (auto simp: opener_def json_ws_def is_digit_def)

lemma str_int_head: "str_int n \<noteq> [] \<and> (hd (str_int n) = CHR ''-'' \<or> is_digit (hd (str_int n)))"
  using str_nat_nonempty[of "nat n"] str_nat_digits[of "hd (str_nat (nat n))" "nat n"]
  by (auto simp: str_int_def)

lemma dump_text_head:
  assumes "plain_value v"
  shows "dump_text ft level v \<noteq> [] \<and> opener (hd (dump_text ft level v))"
proof (cases v)
  case (JInt n)
  then show ?thesis using str_int_head[of n] by (auto simp: opener_def)
next
  case (JFloat x)
  with assms show ?thesis by simp
qed (auto simp: opener_def encode_str_def)

lemma value_step_string:
  assumes "py_str s"
  shows "value_step fl pa po (encode_str s @ rest) = Some (JStr s, rest)"
  using scanstring_encode[OF assms, of rest] by (simp add: value_step_def encode_str_def)

lemma value_step_int:
  assumes "follow rest" "length (str_nat (nat \<bar>n\<bar>)) \<le> max_str_digits"
  shows "value_step fl pa po (str_int n @ rest) = Some (JInt n, rest)"
proof -
  obtain c r where s: "str_int n @ rest = c # r" using str_int_head[of n] by (cases "str_int n @ rest") auto
  have c: "c = CHR ''-'' \<or> is_digit c" using str_int_head[of n] s by (cases "str_int n") auto
  then have n: "c \<noteq> CHR 0x22" "c \<noteq> CHR ''{''" "c \<noteq> CHR ''[''" "c \<noteq> CHR ''n''" "c \<noteq> CHR ''t''" "c \<noteq> CHR ''f''"
    by (auto simp: is_digit_def)
  have p: "parse_number fl (c # r) = Some (JInt n, rest)"
    using parse_number_int[OF assms, of fl] s by simp
  show ?thesis unfolding s value_step_def using n p by simp
qed

lemma ok_leaf:
  "parses_back fl ft JNull" "parses_back fl ft (JBool b)"
  "py_str s \<Longrightarrow> parses_back fl ft (JStr s)"
  "length (str_nat (nat \<bar>n\<bar>)) \<le> max_str_digits \<Longrightarrow> parses_back fl ft (JInt n)"
proof -
  show "parses_back fl ft JNull"
    unfolding parses_back_def
  proof (intro allI impI)
    fix k :: nat and level :: nat and rest :: string
    assume "length (dump_text ft level (JNull :: 'a json)) \<le> k"
    then obtain j where k: "k = Suc j" by (cases k) auto
    show "parse_value fl k (dump_text ft level JNull @ rest) = Some (JNull, rest)"
      unfolding k by (simp add: value_step_def)
  qed
  show "parses_back fl ft (JBool b)"
    unfolding parses_back_def
  proof (intro allI impI)
    fix k :: nat and level :: nat and rest :: string
    assume "length (dump_text ft level (JBool b :: 'a json)) \<le> k"
    then obtain j where k: "k = Suc j" by (cases k) (auto split: if_splits)
    show "parse_value fl k (dump_text ft level (JBool b) @ rest) = Some (JBool b, rest)"
      unfolding k by (simp add: value_step_def)
  qed
  show "parses_back fl ft (JStr s)" if "py_str s"
    unfolding parses_back_def
  proof (intro allI impI)
    fix k :: nat and level :: nat and rest :: string
    assume "length (dump_text ft level (JStr s :: 'a json)) \<le> k"
    then obtain j where k: "k = Suc j" by (cases k) (auto simp: encode_str_def)
    show "parse_value fl k (dump_text ft level (JStr s) @ rest) = Some (JStr s, rest)"
      unfolding k by (simp add: value_step_string[OF that])
  qed
  show "parses_back fl ft (JInt n)" if "length (str_nat (nat \<bar>n\<bar>)) \<le> max_str_digits"
    unfolding parses_back_def
  proof (intro allI impI)
    fix k :: nat and level :: nat and rest :: string
    assume "length (dump_text ft level (JInt n :: 'a json)) \<le> k" and f: "follow rest"
    then obtain j where k: "k = Suc j" using str_int_head[of n] by (cases k) auto
    show "parse_value fl k (dump_text ft level (JInt n) @ rest) = Some (JInt n, rest)"
      unfolding k by (simp add: value_step_int[OF f that])
  qed
qed

lemma join_with_Cons: "xs \<noteq> [] \<Longrightarrow> join_with sep (x # xs) = x @ sep @ join_with sep xs"
  by (cases xs) simp_all

lemma follow_indent: "follow (newline_indent level @ t)" "follow (CHR '','' # t)"
  by (simp_all add: follow_def newline_indent_def)

lemma join_head:
  assumes "ts \<noteq> []" and "hd ts \<noteq> []"
  shows "join_with sep ts \<noteq> [] \<and> hd (join_with sep ts) = hd (hd ts)"
proof (cases ts)
  case Nil
  with assms show ?thesis by simp
next
  case (Cons t r)
  with assms show ?thesis by (cases r) auto
qed

lemma parse_items_ok:
  assumes "xs \<noteq> []" and "\<forall>x\<in>set xs. plain_value x \<and> parses_back fl ft x"
    and "length (join_with (CHR '','' # newline_indent l1) (map (dump_text ft l1) xs)) < k"
  shows "parse_items fl k (join_with (CHR '','' # newline_indent l1) (map (dump_text ft l1) xs)
                             @ newline_indent l0 @ CHR '']'' # rest) = Some (xs, rest)"
  using assms
proof (induction xs arbitrary: k rule: list_nonempty_induct)
  case (single x)
  then obtain j where k: "k = Suc j" by (cases k) auto
  have "parses_back fl ft x" using single by simp
  moreover have "length (dump_text ft l1 x) \<le> j" using single k by simp
  ultimately have v: "parse_value fl j (dump_text ft l1 x @ newline_indent l0 @ CHR '']'' # rest)
      = Some (x, newline_indent l0 @ CHR '']'' # rest)"
    unfolding parses_back_def using follow_indent(1) by blast
  have s: "skip_ws (newline_indent l0 @ CHR '']'' # rest) = CHR '']'' # rest"
    by (simp add: skip_ws_indent skip_ws_keep json_ws_def)
  show ?case unfolding k by (simp add: array_step_def v s)
next
  case (cons x xs)
  let ?sep = "CHR '','' # newline_indent l1"
  let ?j = "join_with ?sep (map (dump_text ft l1) xs)"
  let ?tail = "?j @ newline_indent l0 @ CHR '']'' # rest"
  obtain j where k: "k = Suc j" using cons.prems(2) by (cases k) auto
  have e: "join_with ?sep (map (dump_text ft l1) (x # xs)) = dump_text ft l1 x @ ?sep @ ?j"
    using cons.hyps by (simp add: join_with_Cons)
  have "parses_back fl ft x" using cons.prems(1) by simp
  moreover have "length (dump_text ft l1 x) \<le> j" using cons.prems(2) k unfolding e by simp
  ultimately have v: "parse_value fl j (dump_text ft l1 x @ CHR '','' # newline_indent l1 @ ?tail)
      = Some (x, CHR '','' # newline_indent l1 @ ?tail)"
    unfolding parses_back_def using follow_indent(2) by blast
  have "plain_value (hd xs)" using cons.hyps cons.prems(1) by (cases xs) auto
  then have "hd (map (dump_text ft l1) xs) \<noteq> [] \<and> opener (hd (hd (map (dump_text ft l1) xs)))"
    using dump_text_head[of "hd xs" ft l1] cons.hyps by (cases xs) auto
  then have "?j \<noteq> [] \<and> opener (hd ?j)"
    using join_head[of "map (dump_text ft l1) xs" ?sep] cons.hyps by simp
  then have "?tail \<noteq> [] \<and> \<not> json_ws (hd ?tail)" using opener_facts by auto
  then have s: "skip_ws (newline_indent l1 @ ?tail) = ?tail"
    by (simp add: skip_ws_indent skip_ws_keep)
  have c: "skip_ws (CHR '','' # newline_indent l1 @ ?tail) = CHR '','' # newline_indent l1 @ ?tail"
    by (simp add: skip_ws_keep json_ws_def)
  have "length ?j < j" using cons.prems(2) k unfolding e by simp
  then have i: "parse_items fl j ?tail = Some (xs, rest)"
    using cons.IH[of j] cons.prems(1) by simp
  show ?case unfolding k e by (simp add: array_step_def v c s i consp_def)
qed

lemma member_text_tail:
  "member_text ft l1 kv @ t
     = CHR 0x22 # concat (map esc_ascii (fst kv)) @ CHR 0x22 # CHR '':'' # CHR '' '' # dump_text ft l1 (snd kv) @ t"
  by (simp add: member_text_def encode_str_def)

lemma parse_members_ok:
  assumes "kvs \<noteq> []" and "\<forall>kv\<in>set kvs. py_str (fst kv) \<and> plain_value (snd kv) \<and> parses_back fl ft (snd kv)"
    and "length (join_with (CHR '','' # newline_indent l1) (map (member_text ft l1) kvs)) < k"
  shows "parse_members fl k (tl (join_with (CHR '','' # newline_indent l1) (map (member_text ft l1) kvs)
                                   @ newline_indent l0 @ CHR ''}'' # rest)) = Some (kvs, rest)"
  using assms
proof (induction kvs arbitrary: k rule: list_nonempty_induct)
  case (single kv)
  let ?x = "snd kv"
  let ?after = "newline_indent l0 @ CHR ''}'' # rest"
  obtain j where k: "k = Suc j" using single by (cases k) auto
  have t: "tl (join_with (CHR '','' # newline_indent l1) (map (member_text ft l1) [kv]) @ ?after)
      = concat (map esc_ascii (fst kv)) @ CHR 0x22 # CHR '':'' # CHR '' '' # dump_text ft l1 ?x @ ?after"
    by (simp add: member_text_tail)
  have sc: "scanstring (concat (map esc_ascii (fst kv)) @ CHR 0x22 # CHR '':'' # CHR '' '' # dump_text ft l1 ?x @ ?after)
      = Some (fst kv, CHR '':'' # CHR '' '' # dump_text ft l1 ?x @ ?after)"
    using single by (simp add: scanstring_encode)
  have h: "dump_text ft l1 ?x \<noteq> [] \<and> opener (hd (dump_text ft l1 ?x))"
    using dump_text_head[of ?x ft l1] single by simp
  then have w: "skip_ws (CHR '' '' # dump_text ft l1 ?x @ ?after) = dump_text ft l1 ?x @ ?after"
    using opener_facts[of "hd (dump_text ft l1 ?x)"]
    by (cases "dump_text ft l1 ?x") (auto simp: skip_ws_def json_ws_def)
  have "length (dump_text ft l1 ?x) \<le> j" using single k by (simp add: member_text_def)
  moreover have "parses_back fl ft ?x" using single by simp
  ultimately have v: "parse_value fl j (dump_text ft l1 ?x @ ?after) = Some (?x, ?after)"
    unfolding parses_back_def using follow_indent(1) by blast
  have s: "skip_ws ?after = CHR ''}'' # rest"
    by (simp add: skip_ws_indent skip_ws_keep json_ws_def)
  have c: "skip_ws (CHR '':'' # CHR '' '' # dump_text ft l1 ?x @ ?after)
      = CHR '':'' # CHR '' '' # dump_text ft l1 ?x @ ?after"
    by (simp add: skip_ws_keep json_ws_def)
  show ?case unfolding k t by (simp add: object_step_def sc c w v s)
next
  case (cons kv kvs)
  let ?x = "snd kv"
  let ?sep = "CHR '','' # newline_indent l1"
  let ?j = "join_with ?sep (map (member_text ft l1) kvs)"
  let ?tail = "?j @ newline_indent l0 @ CHR ''}'' # rest"
  let ?after = "CHR '','' # newline_indent l1 @ ?tail"
  obtain j where k: "k = Suc j" using cons.prems(2) by (cases k) auto
  have e: "join_with ?sep (map (member_text ft l1) (kv # kvs)) = member_text ft l1 kv @ ?sep @ ?j"
    using cons.hyps by (simp add: join_with_Cons)
  have t: "tl (join_with ?sep (map (member_text ft l1) (kv # kvs)) @ newline_indent l0 @ CHR ''}'' # rest)
      = concat (map esc_ascii (fst kv)) @ CHR 0x22 # CHR '':'' # CHR '' '' # dump_text ft l1 ?x @ ?after"
    unfolding e by (simp add: member_text_tail)
  have sc: "scanstring (concat (map esc_ascii (fst kv)) @ CHR 0x22 # CHR '':'' # CHR '' '' # dump_text ft l1 ?x @ ?after)
      = Some (fst kv, CHR '':'' # CHR '' '' # dump_text ft l1 ?x @ ?after)"
    using cons.prems(1) by (simp add: scanstring_encode)
  have h: "dump_text ft l1 ?x \<noteq> [] \<and> opener (hd (dump_text ft l1 ?x))"
    using dump_text_head[of ?x ft l1] cons.prems(1) by simp
  then have w: "skip_ws (CHR '' '' # dump_text ft l1 ?x @ ?after) = dump_text ft l1 ?x @ ?after"
    using opener_facts[of "hd (dump_text ft l1 ?x)"]
    by (cases "dump_text ft l1 ?x") (auto simp: skip_ws_def json_ws_def)
  have "length (dump_text ft l1 ?x) \<le> j" using cons.prems(2) k unfolding e by (simp add: member_text_def)
  moreover have "parses_back fl ft ?x" using cons.prems(1) by simp
  ultimately have v: "parse_value fl j (dump_text ft l1 ?x @ ?after) = Some (?x, ?after)"
    unfolding parses_back_def using follow_indent(2) by blast
  have c: "skip_ws (CHR '':'' # CHR '' '' # dump_text ft l1 ?x @ ?after)
      = CHR '':'' # CHR '' '' # dump_text ft l1 ?x @ ?after"
    by (simp add: skip_ws_keep json_ws_def)
  have c2: "skip_ws ?after = ?after"
    by (simp add: skip_ws_keep json_ws_def)
  have jh: "?j \<noteq> [] \<and> hd ?j = CHR 0x22"
    using join_head[of "map (member_text ft l1) kvs" ?sep] cons.hyps
    by (cases kvs) (auto simp: member_text_def encode_str_def)
  then obtain r4 where r4: "?tail = CHR 0x22 # r4" "r4 = tl ?tail" by (cases ?j) auto
  have s: "skip_ws (newline_indent l1 @ ?tail) = ?tail"
    unfolding r4(1) by (simp add: skip_ws_indent skip_ws_keep json_ws_def)
  have "length ?j < j" using cons.prems(2) k unfolding e by simp
  then have i: "parse_members fl j (tl ?tail) = Some (kvs, rest)"
    using cons.IH[of j] cons.prems(1) by simp
  have "object_step (parse_value fl j) (parse_members fl j)
          (concat (map esc_ascii (fst kv)) @ CHR 0x22 # CHR '':'' # CHR '' '' # dump_text ft l1 ?x @ ?after)
        = consp (fst kv, ?x) (parse_members fl j (tl ?tail))"
    unfolding object_step_def sc
    apply (simp only: option.case prod.case c list.case w v c2 s)
    apply (simp add: r4(1))
    done
  then show ?case unfolding k t by (simp add: i consp_def)
qed

lemma dict_put_fresh: "k \<notin> fst ` set d \<Longrightarrow> dict_put k v d = d @ [(k, v)]"
  by (induction d) auto

lemma dict_fold_distinct:
  "distinct (map fst (d @ kvs))
     \<Longrightarrow> foldl (\<lambda>d kv. dict_put (fst kv) (snd kv) d) d kvs = d @ kvs"
proof (induction kvs arbitrary: d)
  case Nil
  show ?case by simp
next
  case (Cons kv kvs)
  have "fst kv \<notin> fst ` set d" using Cons.prems by auto
  then have p: "dict_put (fst kv) (snd kv) d = d @ [kv]" by (simp add: dict_put_fresh)
  have "distinct (map fst ((d @ [kv]) @ kvs))" using Cons.prems by simp
  from Cons.IH[OF this] show ?case by (simp add: p)
qed

lemma dict_of_distinct: "distinct (map fst kvs) \<Longrightarrow> dict_of kvs = kvs"
  using dict_fold_distinct[of "[]" kvs] by (simp add: dict_of_def)

lemma length_newline_indent: "length (newline_indent level) = Suc (2 * level)"
  by (simp add: newline_indent_def)

lemma dump_text_parses:
  "plain_value v \<Longrightarrow> parses_back fl ft v"
proof (induction v)
  case JNull
  show ?case by (rule ok_leaf)
next
  case (JBool b)
  show ?case by (rule ok_leaf)
next
  case (JInt n)
  then show ?case by (simp add: ok_leaf)
next
  case (JFloat x)
  then show ?case by simp
next
  case (JStr s)
  then show ?case by (simp add: ok_leaf)
next
  case (JArr xs)
  have all: "\<forall>x\<in>set xs. plain_value x \<and> parses_back fl ft x" using JArr by simp
  show ?case unfolding parses_back_def
  proof (intro allI impI)
    fix k level :: nat and rest :: string
    assume len: "length (dump_text ft level (JArr xs)) \<le> k" and f: "follow rest"
    show "parse_value fl k (dump_text ft level (JArr xs) @ rest) = Some (JArr xs, rest)"
    proof (cases "xs = []")
      case True
      with len obtain j where k: "k = Suc j" by (cases k) auto
      show ?thesis unfolding k using True
        by (simp add: value_step_def skip_ws_keep json_ws_def)
    next
      case False
      let ?l1 = "Suc level"
      let ?j = "join_with (CHR '','' # newline_indent ?l1) (map (dump_text ft ?l1) xs)"
      let ?tail = "?j @ newline_indent level @ CHR '']'' # rest"
      have e: "dump_text ft level (JArr xs) @ rest = CHR ''['' # newline_indent ?l1 @ ?tail"
        using False by simp
      from len obtain j where k: "k = Suc j" using False by (cases k) auto
      have lj: "length ?j < j" using len False k by (simp add: length_newline_indent)
      have "plain_value (hd xs)" using False all by (cases xs) auto
      then have "hd (map (dump_text ft ?l1) xs) \<noteq> [] \<and> opener (hd (hd (map (dump_text ft ?l1) xs)))"
        using dump_text_head[of "hd xs" ft ?l1] False by (cases xs) auto
      then have jh: "?j \<noteq> [] \<and> opener (hd ?j)"
        using join_head[of "map (dump_text ft ?l1) xs" "CHR '','' # newline_indent ?l1"] False by simp
      then obtain d r1 where t: "?tail = d # r1" and d: "opener d" by (cases ?j) auto
      have s: "skip_ws (newline_indent ?l1 @ ?tail) = d # r1"
        unfolding t using opener_facts[OF d] by (simp add: skip_ws_indent skip_ws_keep)
      have i: "parse_items fl j (d # r1) = Some (xs, rest)"
        using parse_items_ok[OF False all lj, of level rest] t by simp
      have dn: "d \<noteq> CHR '']''" using opener_facts[OF d] by simp
      show ?thesis unfolding e k by (simp add: value_step_def s i dn)
    qed
  qed
next
  case (JObj kvs)
  have all: "\<forall>kv\<in>set kvs. py_str (fst kv) \<and> plain_value (snd kv) \<and> parses_back fl ft (snd kv)"
  proof
    fix kv assume m: "kv \<in> set kvs"
    then have "py_str (fst kv)" "plain_value (snd kv)" using JObj.prems by auto
    moreover have "snd kv \<in> Basic_BNFs.snds kv" by (cases kv) simp
    ultimately show "py_str (fst kv) \<and> plain_value (snd kv) \<and> parses_back fl ft (snd kv)"
      using JObj.IH[OF m] by blast
  qed
  have dist: "dict_of kvs = kvs" using JObj.prems by (simp add: dict_of_distinct)
  show ?case unfolding parses_back_def
  proof (intro allI impI)
    fix k level :: nat and rest :: string
    assume len: "length (dump_text ft level (JObj kvs)) \<le> k" and f: "follow rest"
    show "parse_value fl k (dump_text ft level (JObj kvs) @ rest) = Some (JObj kvs, rest)"
    proof (cases "kvs = []")
      case True
      with len obtain j where k: "k = Suc j" by (cases k) auto
      show ?thesis unfolding k using True
        by (simp add: value_step_def skip_ws_keep json_ws_def)
    next
      case False
      let ?l1 = "Suc level"
      let ?j = "join_with (CHR '','' # newline_indent ?l1) (map (member_text ft ?l1) kvs)"
      let ?tail = "?j @ newline_indent level @ CHR ''}'' # rest"
      have m: "(\<lambda>kv. encode_str (fst kv) @ CHR '':'' # CHR '' '' # dump_text ft ?l1 (snd kv))
                = member_text ft ?l1"
        by (rule ext) (simp add: member_text_def)
      have e: "dump_text ft level (JObj kvs) @ rest = CHR ''{'' # newline_indent ?l1 @ ?tail"
        using False by (simp add: m)
      from len obtain j where k: "k = Suc j" using False by (cases k) auto
      have "length (dump_text ft level (JObj kvs)) = Suc (length (newline_indent ?l1 @ ?j @ newline_indent level @ ''}''))"
        using False by (simp add: m)
      then have lj: "length ?j < j" using len k by (simp add: length_newline_indent)
      have jh: "?j \<noteq> [] \<and> hd ?j = CHR 0x22"
        using join_head[of "map (member_text ft ?l1) kvs" "CHR '','' # newline_indent ?l1"] False
        by (cases kvs) (auto simp: member_text_def encode_str_def)
      then obtain r1 where t: "?tail = CHR 0x22 # r1" "r1 = tl ?tail" by (cases ?j) auto
      have s: "skip_ws (newline_indent ?l1 @ ?tail) = CHR 0x22 # r1"
        unfolding t(1) by (simp add: skip_ws_indent skip_ws_keep json_ws_def)
      have i: "parse_members fl j r1 = Some (kvs, rest)"
        using parse_members_ok[OF False all lj, of level rest] t(2) by simp
      show ?thesis unfolding e k by (simp add: value_step_def s i dist)
    qed
  qed
qed



lemma hex_digit_ascii: "d < 16 \<Longrightarrow> (of_char (hex_digit d) :: nat) < 128"
  using hex_cases[of d] by (auto simp: hex_digit_def)

lemma hex4_ascii: "\<forall>x\<in>set (hex4 n). (of_char x :: nat) < 128"
  by (simp add: hex4_def hex_digit_ascii)

lemma esc_ascii_ascii:
  assumes "c < 1114112"
  shows "\<forall>x\<in>set (esc_ascii c). (of_char x :: nat) < 128"
proof -
  consider
    (short) x where "esc_ascii c = [CHR 0x5C, x]" "unescape x = Some c"
  | (plain) "esc_ascii c = [char_of c]" "c \<le> 126"
  | (unit) "esc_ascii c = [CHR 0x5C, CHR ''u''] @ hex4 c"
  | (pair) "esc_ascii c = [CHR 0x5C, CHR ''u''] @ hex4 (55296 + (c - 65536) div 1024)
                          @ [CHR 0x5C, CHR ''u''] @ hex4 (56320 + (c - 65536) mod 1024)"
    using esc_ascii_head[OF assms] by blast
  then show ?thesis
  proof cases
    case short
    then have "(of_char x :: nat) < 128" by (auto simp: unescape_def split: if_splits)
    with short show ?thesis by simp
  next
    case plain
    then show ?thesis by simp
  next
    case unit
    then show ?thesis using hex4_ascii by simp
  next
    case pair
    then show ?thesis
      using hex4_ascii[of "55296 + (c - 65536) div 1024"] hex4_ascii[of "56320 + (c - 65536) mod 1024"]
      by auto
  qed
qed

lemma py_str_range: "py_str s \<Longrightarrow> \<forall>c\<in>set s. c < 1114112"
  by (induction s rule: py_str.induct) auto

lemma encode_str_ascii: "py_str s \<Longrightarrow> \<forall>x\<in>set (encode_str s). (of_char x :: nat) < 128"
  using py_str_range[of s] esc_ascii_ascii by (auto simp: encode_str_def)

lemma str_nat_ascii: "\<forall>x\<in>set (str_nat m). (of_char x :: nat) < 128"
proof
  fix x assume "x \<in> set (str_nat m)"
  then have "is_digit x" by (rule str_nat_digits)
  then show "(of_char x :: nat) < 128" by (simp add: is_digit_def Let_def)
qed

lemma str_int_ascii: "\<forall>x\<in>set (str_int n). (of_char x :: nat) < 128"
  using str_nat_ascii by (simp add: str_int_def)

lemma join_with_set: "set (join_with sep ts) \<subseteq> set sep \<union> (\<Union>t\<in>set ts. set t)"
  by (induction sep ts rule: join_with.induct) auto

lemma newline_indent_ascii: "\<forall>x\<in>set (newline_indent level). (of_char x :: nat) < 128"
  by (auto simp: newline_indent_def)


lemma ascii_simps:
  "all_ascii []" "all_ascii (c # t) = ((of_char c :: nat) < 128 \<and> all_ascii t)" "all_ascii (a @ b) = (all_ascii a \<and> all_ascii b)"
  by (auto simp: all_ascii_def)

lemma ascii_join:
  assumes "all_ascii sep" and "\<forall>t\<in>set ts. all_ascii t"
  shows "all_ascii (join_with sep ts)"
  using assms by (induction sep ts rule: join_with.induct) (simp_all add: ascii_simps)

lemma ascii_indent: "all_ascii (newline_indent level)"
  using newline_indent_ascii by (simp add: all_ascii_def)

lemma dump_text_ascii: "plain_value v \<Longrightarrow> all_ascii (dump_text ft level v)"
proof (induction v arbitrary: level)
  case JNull
  show ?case by (simp add: ascii_simps)
next
  case (JBool b)
  show ?case by (simp add: ascii_simps)
next
  case (JInt n)
  show ?case using str_int_ascii by (simp add: all_ascii_def)
next
  case (JFloat x)
  then show ?case by simp
next
  case (JStr s)
  then show ?case using encode_str_ascii[of s] by (simp add: all_ascii_def)
next
  case (JArr xs)
  have "\<forall>t\<in>set (map (dump_text ft (Suc level)) xs). all_ascii t" using JArr by simp
  then have "all_ascii (join_with (CHR '','' # newline_indent (Suc level)) (map (dump_text ft (Suc level)) xs))"
    by (intro ascii_join) (simp_all add: ascii_simps ascii_indent)
  then show ?case by (simp add: ascii_simps ascii_indent)
next
  case (JObj kvs)
  have "\<forall>kv\<in>set kvs. all_ascii (member_text ft (Suc level) kv)"
  proof
    fix kv assume m: "kv \<in> set kvs"
    have "snd kv \<in> Basic_BNFs.snds kv" by (cases kv) simp
    moreover have "plain_value (snd kv)" "py_str (fst kv)" using JObj.prems m by auto
    ultimately have "all_ascii (dump_text ft (Suc level) (snd kv))" "all_ascii (encode_str (fst kv))"
      using JObj.IH[OF m] encode_str_ascii[of "fst kv"] by (simp_all add: all_ascii_def)
    then show "all_ascii (member_text ft (Suc level) kv)"
      by (simp add: member_text_def ascii_simps)
  qed
  then have "\<forall>t\<in>set (map (member_text ft (Suc level)) kvs). all_ascii t" by simp
  then have j: "all_ascii (join_with (CHR '','' # newline_indent (Suc level)) (map (member_text ft (Suc level)) kvs))"
    by (intro ascii_join) (simp_all add: ascii_simps ascii_indent)
  have m: "(\<lambda>kv. encode_str (fst kv) @ CHR '':'' # CHR '' '' # dump_text ft (Suc level) (snd kv))
                = member_text ft (Suc level)"
    by (rule ext) (simp add: member_text_def)
  show ?case using j by (simp add: m ascii_simps ascii_indent)
qed

lemma json_round_trip:
  assumes "plain_value v"
  shows "json_loads_ascii fl (dump_text ft 0 v) = Some v"
proof -
  let ?t = "dump_text ft 0 v"
  have a: "\<not> (\<exists>c\<in>set ?t. 128 \<le> (of_char c :: nat))"
    using dump_text_ascii[OF assms, of ft 0] by (auto simp: all_ascii_def not_le)
  have h: "?t \<noteq> [] \<and> opener (hd ?t)" by (rule dump_text_head[OF assms])
  then have s: "skip_ws ?t = ?t" using opener_facts[of "hd ?t"] by (simp add: skip_ws_keep)
  have f: "follow []" by (simp add: follow_def)
  have "parses_back fl ft v" by (rule dump_text_parses[OF assms])
  then have "length ?t \<le> Suc (length ?t) \<longrightarrow> follow []
      \<longrightarrow> parse_value fl (Suc (length ?t)) (?t @ []) = Some (v, [])"
    unfolding parses_back_def by blast
  then have p: "parse_value fl (Suc (length ?t)) ?t = Some (v, [])" using f by simp
  have e: "skip_ws [] = []" by (simp add: skip_ws_def)
  show ?thesis unfolding json_loads_ascii_def s p using a e by simp
qed

section \<open>Claim C7: uploads that are stored\<close>

























section \<open>Claim C9: a POST without Content-Length\<close>











section \<open>Claim C8: admission and the 503 response\<close>

lemma utf8_encode_append: "utf8_encode (a @ b) = utf8_encode a @ utf8_encode b"
  by (simp add: utf8_encode_def)

lemma utf8_encode_Cons: "utf8_encode (c # s) = utf8_char c @ utf8_encode s"
  by (simp add: utf8_encode_def)

lemma utf8_encode_Nil: "utf8_encode [] = []"
  by (simp add: utf8_encode_def)

lemma busy_response_text:
  "busy_response d =
     ''HTTP/1.1 503 Service Unavailable'' @ CRLF
     @ ''Retry-After: 5'' @ CRLF
     @ ''Content-Type: text/html; charset=utf-8'' @ CRLF
     @ ''Connection: close'' @ CRLF
     @ ''Date: '' @ utf8_encode d @ CRLF
     @ ''Server: Multi-threaded HTTP Server'' @ CRLF
     @ ''Content-Length: 58'' @ CRLF
     @ CRLF
     @ ''<html><body><h1>503 Service Unavailable</h1></body></html>''"
  by (simp add: busy_response_def make_response_def response_headers_def setdefault_def
        header_line_def SERVER_NAME_def str_int_def str_nat_small str_nat_big digit_char_def
        utf8_encode_append utf8_encode_Cons utf8_encode_Nil utf8_char_def CRLF_def)

lemma submit_eq:
  "submit q item = (length q < CONN_QUEUE_MAX, if length q < CONN_QUEUE_MAX then q @ [item] else q)"
  by (simp add: submit_def)

lemma accept_step_full:
  assumes "\<not> length q < CONN_QUEUE_MAX" "\<not> peer_gone c" "\<not> closed c"
  shows "accept_step d q item c = (q, c\<lparr>sent := sent c @ [busy_response d], closed := True\<rparr>)"
  using assms by (simp add: accept_step_def submit_def sendall_alive close_sock_def)

lemma accept_step_full_gone:
  assumes "\<not> length q < CONN_QUEUE_MAX" "peer_gone c"
  shows "accept_step d q item c = (q, c)"
  using assms by (simp add: accept_step_def submit_def sendall_gone)

lemma accept_step_room:
  assumes "length q < CONN_QUEUE_MAX"
  shows "accept_step d q item c = (q @ [item], c)"
  using assms by (simp add: accept_step_def submit_def)

text \<open>
  Claim C8, as stated, has every rejected connection answered 503 and then closed.
  When the peer has already gone away \<open>sendall\<close> raises, the \<open>except Exception: pass\<close>
  around the loop body swallows the exception, and \<open>close\<close>, which follows \<open>sendall\<close>
  in the same block, is not reached: nothing is sent and the socket stays open.
\<close>

theorem accept_step_peer_gone_counterexample:
  "\<not> fst (submit (replicate 200 ''queued'') ''late'')
   \<and> accept_step (date demo_env) (replicate 200 ''queued'') ''late'' ((fresh_sock [])\<lparr>peer_gone := True\<rparr>)
       = (replicate 200 ''queued'', (fresh_sock [])\<lparr>peer_gone := True\<rparr>)
   \<and> sent ((fresh_sock [])\<lparr>peer_gone := True\<rparr>) = []
   \<and> \<not> closed ((fresh_sock [])\<lparr>peer_gone := True\<rparr>)"
  using accept_step_full_gone[where q="replicate 200 ''queued''" and item="''late''"
          and c="(fresh_sock [])\<lparr>peer_gone := True\<rparr>" and d="date demo_env"]
  by (simp add: submit_eq CONN_QUEUE_MAX_def fresh_sock_def)

text \<open>
  Claim C8, amended. \<open>submit\<close> returns at once, with true exactly when the pending queue
  holds fewer than \<open>CONN_QUEUE_MAX\<close> = 200 connections, which it then appends, and with
  false and the queue unchanged otherwise; the queue never grows beyond its capacity.
  Whenever \<open>submit\<close> returns false for an accepted connection whose peer is still
  there, the accept loop writes to that socket the 503 response shown, with the headers
  \<open>Retry-After: 5\<close>, \<open>Content-Type: text/html; charset=utf-8\<close> and \<open>Connection: close\<close>
  and a short HTML body, and then closes the socket.
\<close>

theorem submit_and_reject:
  "fst (submit q item) = (length q < CONN_QUEUE_MAX) \<and> CONN_QUEUE_MAX = 200
   \<and> snd (submit q item) = (if length q < CONN_QUEUE_MAX then q @ [item] else q)
   \<and> (length q \<le> CONN_QUEUE_MAX \<longrightarrow> length (snd (submit q item)) \<le> CONN_QUEUE_MAX)
   \<and> (fst (submit q item) \<longrightarrow> accept_step d q item c = (q @ [item], c))
   \<and> (\<not> fst (submit q item) \<and> \<not> peer_gone c \<and> \<not> closed c
        \<longrightarrow> accept_step d q item c
            = (q, c\<lparr>sent := sent c @ [busy_response d], closed := True\<rparr>))
   \<and> busy_response d =
        ''HTTP/1.1 503 Service Unavailable'' @ CRLF
        @ ''Retry-After: 5'' @ CRLF
        @ ''Content-Type: text/html; charset=utf-8'' @ CRLF
        @ ''Connection: close'' @ CRLF
        @ ''Date: '' @ utf8_encode d @ CRLF
        @ ''Server: Multi-threaded HTTP Server'' @ CRLF
        @ ''Content-Length: 58'' @ CRLF
        @ CRLF
        @ ''<html><body><h1>503 Service Unavailable</h1></body></html>''"
  using accept_step_room[where q=q and item=item and d=d and c=c]
    accept_step_full[where q=q and item=item and d=d and c=c] busy_response_text[of d]
  by (simp add: submit_eq CONN_QUEUE_MAX_def)

theorem submit_and_reject_witness:
  "(\<not> fst (submit (replicate 200 ''queued'') ''late'') \<and> \<not> peer_gone (fresh_sock []) \<and> \<not> closed (fresh_sock []))
   \<and> accept_step (date demo_env) (replicate 200 ''queued'') ''late'' (fresh_sock [])
       = (replicate 200 ''queued'', (fresh_sock [])\<lparr>sent := [busy_response (date demo_env)], closed := True\<rparr>)
   \<and> (length (replicate 199 ''queued'') \<le> CONN_QUEUE_MAX \<and> fst (submit (replicate 199 ''queued'') ''late''))
   \<and> length (snd (submit (replicate 199 ''queued'') ''late'')) \<le> CONN_QUEUE_MAX
   \<and> accept_step (date demo_env) (replicate 199 ''queued'') ''late'' (fresh_sock [])
       = (replicate 199 ''queued'' @ [''late''], fresh_sock [])"
proof -
  note w = submit_and_reject[where d="date demo_env" and item="''late''" and c="fresh_sock []"]
  have h1: "\<not> fst (submit (replicate 200 ''queued'') ''late'') \<and> \<not> peer_gone (fresh_sock []) \<and> \<not> closed (fresh_sock [])"
    by (simp add: submit_eq CONN_QUEUE_MAX_def fresh_sock_alive)
  have h2: "length (replicate 199 ''queued'') \<le> CONN_QUEUE_MAX \<and> fst (submit (replicate 199 ''queued'') ''late'')"
    by (simp add: submit_eq CONN_QUEUE_MAX_def)
  have c1: "accept_step (date demo_env) (replicate 200 ''queued'') ''late'' (fresh_sock [])
       = (replicate 200 ''queued'', (fresh_sock [])\<lparr>sent := [busy_response (date demo_env)], closed := True\<rparr>)"
    using w[where q="replicate 200 ''queued''", THEN conjunct2, THEN conjunct2, THEN conjunct2,
            THEN conjunct2, THEN conjunct2, THEN conjunct1, rule_format, OF h1]
    by (simp only: fresh_sock_alive append_Nil)
  have c2: "length (snd (submit (replicate 199 ''queued'') ''late'')) \<le> CONN_QUEUE_MAX"
    using w[where q="replicate 199 ''queued''", THEN conjunct2, THEN conjunct2, THEN conjunct2,
            THEN conjunct1, rule_format, OF h2[THEN conjunct1]] .
  have c3: "accept_step (date demo_env) (replicate 199 ''queued'') ''late'' (fresh_sock [])
       = (replicate 199 ''queued'' @ [''late''], fresh_sock [])"
    using w[where q="replicate 199 ''queued''", THEN conjunct2, THEN conjunct2, THEN conjunct2,
            THEN conjunct2, THEN conjunct1, rule_format, OF h2[THEN conjunct2]] .
  from h1 c1 h2 c2 c3 show ?thesis by (intro conjI) (simp_all only: simp_thms)
qed

end
